theory Spec2Isabelle
  imports Complex_Main "HOL-Library.Multiset"
begin

section \<open>Data model of \<open>src/app/quiz/page.tsx\<close>\<close>

text \<open>
  The TypeScript unions \<open>Difficulty\<close>, \<open>Mode\<close> and the answer letter
  \<open>"A" | "B" | "C" | "D"\<close> are datatypes; \<open>Question\<close> is a record with the
  fields of the source type.
\<close>

datatype Difficulty = easy | medium | hard

datatype Mode = balanced | exam

datatype Choice = A | B | C | D

record Question =
  qid :: string
  domain :: string
  difficulty :: Difficulty
  qmode :: Mode
  question :: string
  choices :: "string list"
  correctIndex :: nat
  correctChoice :: Choice
  explanation :: string

fun correctChoiceToIndex :: "Choice \<Rightarrow> nat" where
  "correctChoiceToIndex c = (if c = A then 0 else if c = B then 1 else if c = C then 2 else 3)"

fun indexToChoice :: "nat \<Rightarrow> Choice" where
  "indexToChoice i = (if i = 0 then A else if i = 1 then B else if i = 2 then C else D)"

definition clampInt :: "int \<Rightarrow> int \<Rightarrow> int \<Rightarrow> int" where
  "clampInt n lo hi = max lo (min hi n)"

section \<open>The sampler\<close>

subsection \<open>\<open>shuffle\<close>\<close>

text \<open>
  \<open>shuffle\<close> copies the array and runs the Fisher-Yates loop
  \<open>for (i = a.length - 1; i > 0; i--)\<close>, drawing
  \<open>j = Math.floor(Math.random() * (i + 1))\<close>, a value in \<open>0..i\<close>, and swapping
  \<open>a[i]\<close> with \<open>a[j]\<close>. The random source is an explicit oracle \<open>r\<close>, read at
  a running position: the draw for bound \<open>i + 1\<close> is \<open>r p mod (i + 1)\<close>, so that
  every value of \<open>0..i\<close> is a possible draw and all results hold for every oracle.
  The function returns the shuffled copy and the position after the last draw.
\<close>

type_synonym rng = "nat \<Rightarrow> nat"

definition swap :: "'a list \<Rightarrow> nat \<Rightarrow> nat \<Rightarrow> 'a list" where
  "swap a i j = a[i := a ! j, j := a ! i]"

fun shuffle_loop :: "rng \<Rightarrow> nat \<Rightarrow> nat \<Rightarrow> 'a list \<Rightarrow> 'a list \<times> nat" where
  "shuffle_loop r p 0 a = (a, p)"
| "shuffle_loop r p (Suc i) a =
     (let j = r p mod (Suc i + 1) in shuffle_loop r (p + 1) i (swap a (Suc i) j))"

definition shuffle :: "rng \<Rightarrow> nat \<Rightarrow> 'a list \<Rightarrow> 'a list \<times> nat" where
  "shuffle r p arr = shuffle_loop r p (length arr - 1) arr"

subsection \<open>\<open>Array.prototype.slice\<close>\<close>

text \<open>
  \<open>slice(start, end)\<close> on integer arguments: a negative argument counts from the end
  of the array, both are clamped to \<open>0..length\<close>, and the result is empty when the
  final position is not after the first. \<open>slice_from\<close> is the one-argument call, whose
  end is the length.
\<close>

definition slice :: "int \<Rightarrow> int \<Rightarrow> 'a list \<Rightarrow> 'a list" where
  "slice start end xs =
     (let len = int (length xs);
          k = (if start < 0 then max (len + start) 0 else min start len);
          final = (if end < 0 then max (len + end) 0 else min end len)
      in take (nat (final - k)) (drop (nat k) xs))"

definition slice_from :: "int \<Rightarrow> 'a list \<Rightarrow> 'a list" where
  "slice_from start xs = slice start (int (length xs)) xs"

subsection \<open>Weights and targets\<close>

text \<open>
  The weights are \<open>{easy: 0.1, medium: 0.45, hard: 0.45}\<close> in exam mode and
  \<open>{easy: 0.3, medium: 0.5, hard: 0.2}\<close> otherwise, kept here as hundredths.
  \<open>Math.round(size * w)\<close> is the nearest integer with ties toward \<open>+\<infinity>\<close>, that is
  \<open>\<lfloor>size * w + 1/2\<rfloor>\<close>; with \<open>w = pct / 100\<close> this is \<open>(size * pct + 50) div 100\<close>
  (lemma \<open>round_weight_floor\<close>). The product is taken exactly: for the sizes the page
  can pass (\<open>clampInt(quizSize, 1, 500)\<close>, so 1 to 500) and the four weights used,
  the double-precision product rounds to the same integer.
\<close>

record weights =
  w_easy :: int
  w_medium :: int
  w_hard :: int

definition weights_of :: "Mode \<Rightarrow> weights" where
  "weights_of mode =
     (if mode = exam then \<lparr>w_easy = 10, w_medium = 45, w_hard = 45\<rparr>
      else \<lparr>w_easy = 30, w_medium = 50, w_hard = 20\<rparr>)"

definition round_weight :: "int \<Rightarrow> int \<Rightarrow> int" where
  "round_weight sz pct = (sz * pct + 50) div 100"

definition targetEasy :: "Mode \<Rightarrow> int \<Rightarrow> int" where
  "targetEasy mode sz = round_weight sz (w_easy (weights_of mode))"

definition targetMed :: "Mode \<Rightarrow> int \<Rightarrow> int" where
  "targetMed mode sz = round_weight sz (w_medium (weights_of mode))"

definition targetHard :: "Mode \<Rightarrow> int \<Rightarrow> int" where
  "targetHard mode sz = sz - targetEasy mode sz - targetMed mode sz"

subsection \<open>\<open>pickWeighted\<close>\<close>

text \<open>
  The buckets are filled in pool order (\<open>buckets[q.difficulty].push(q)\<close>), each is
  shuffled, the three bounded prefixes are concatenated, the shortfall is filled from the
  shuffled leftovers, and the whole is shuffled and cut to \<open>size\<close>. The position of
  the random source is threaded through the up to five shuffles.
\<close>

definition bucket :: "Difficulty \<Rightarrow> Question list \<Rightarrow> Question list" where
  "bucket d questions = filter (\<lambda>q. difficulty q = d) questions"

definition pickWeighted :: "rng \<Rightarrow> nat \<Rightarrow> Question list \<Rightarrow> int \<Rightarrow> Mode \<Rightarrow> Question list \<times> nat" where
  "pickWeighted r p0 questions sz mode =
     (let (b_easy, p1) = shuffle r p0 (bucket easy questions);
          (b_medium, p2) = shuffle r p1 (bucket medium questions);
          (b_hard, p3) = shuffle r p2 (bucket hard questions);
          takeEasy = min (targetEasy mode sz) (int (length b_easy));
          takeMed = min (targetMed mode sz) (int (length b_medium));
          takeHard = min (targetHard mode sz) (int (length b_hard));
          picked = slice 0 takeEasy b_easy @ slice 0 takeMed b_medium @ slice 0 takeHard b_hard;
          (picked', p4) =
            (if int (length picked) < sz then
               (let (remainingPool, p) =
                      shuffle r p3 (slice_from takeEasy b_easy @ slice_from takeMed b_medium
                                    @ slice_from takeHard b_hard)
                in (picked @ slice 0 (sz - int (length picked)) remainingPool, p))
             else (picked, p3));
          (final, p5) = shuffle r p4 picked'
      in (slice 0 sz final, p5))"

definition count_difficulty :: "Difficulty \<Rightarrow> Question list \<Rightarrow> nat" where
  "count_difficulty d qs = length (bucket d qs)"

section \<open>The session state machine\<close>

text \<open>
  The component state of \<open>QuizPage\<close>, one field per \<open>useState\<close> cell the session
  logic reads or writes. \<open>index\<close> is a JavaScript number (\<open>findIndex\<close> can
  return \<open>-1\<close>), so it is an \<open>int\<close>; \<open>selectedIndex\<close> is
  \<open>number | null\<close>. The two store calls awaited by \<open>submit\<close> write no cell other
  than \<open>saving\<close> and report a failure as a value, which is logged; the store itself
  is outside this model. Each handler is one atomic transition. Fresh session tokens (\<open>crypto.randomUUID()\<close> or the timestamp
  fallback) and the random draws of \<open>shuffle\<close> are inputs of the handlers that use
  them.
\<close>

record DbRow =
  row_id :: string
  row_domain :: string
  row_difficulty :: Difficulty
  row_mode :: Mode
  row_question :: string
  choice_a :: string
  choice_b :: string
  choice_c :: string
  choice_d :: string
  correct_choice :: Choice
  row_explanation :: "string option"

record state =
  mode :: Mode
  quizSize :: int
  domainFilter :: string
  loading :: bool
  saving :: bool
  error :: "string option"
  questions :: "Question list"
  index :: int
  selectedIndex :: "nat option"
  submitted :: bool
  correctCount :: nat
  answeredCount :: nat
  incorrectIds :: "string list"
  showReview :: bool
  sessionId :: string

definition total :: "state \<Rightarrow> int" where
  "total s = int (length (questions s))"

text \<open>\<open>q = questions[index]\<close>: \<open>undefined\<close> outside the array.\<close>

definition current :: "state \<Rightarrow> Question option" where
  "current s =
     (if 0 \<le> index s \<and> index s < total s then Some (questions s ! nat (index s)) else None)"

definition isCorrect :: "state \<Rightarrow> bool" where
  "isCorrect s =
     (case current s of None \<Rightarrow> False
      | Some q \<Rightarrow> (case selectedIndex s of None \<Rightarrow> False | Some sel \<Rightarrow> sel = correctIndex q))"

definition mapRow :: "DbRow \<Rightarrow> Question" where
  "mapRow r =
     \<lparr>qid = row_id r, domain = row_domain r, difficulty = row_difficulty r, qmode = row_mode r,
      question = row_question r,
      choices = [choice_a r, choice_b r, choice_c r, choice_d r],
      correctIndex = correctChoiceToIndex (correct_choice r),
      correctChoice = correct_choice r,
      explanation = (case row_explanation r of None \<Rightarrow> ''No explanation provided.'' | Some e \<Rightarrow> e)\<rparr>"

text \<open>
  \<open>loadQuestions\<close> after the query has answered: \<open>Inl\<close> is the store's error
  message, \<open>Inr\<close> the fetched rows.
\<close>

definition loadQuestions :: "rng \<Rightarrow> nat \<Rightarrow> string \<Rightarrow> string + DbRow list \<Rightarrow> Mode \<Rightarrow> state \<Rightarrow> state" where
  "loadQuestions r p newSess fetched selectedMode s =
     (case fetched of
        Inl msg \<Rightarrow> s\<lparr>error := Some msg, questions := [], loading := False\<rparr>
      | Inr rows \<Rightarrow>
          (let mapped = map mapRow rows;
               picked = fst (pickWeighted r p mapped (clampInt (quizSize s) 1 500) selectedMode)
           in s\<lparr>error := None, questions := picked, index := 0, selectedIndex := None,
                submitted := False, correctCount := 0, answeredCount := 0, incorrectIds := [],
                showReview := False, sessionId := newSess, loading := False\<rparr>))"

definition selectChoice :: "nat \<Rightarrow> state \<Rightarrow> state" where
  "selectChoice idx s = (if submitted s then s else s\<lparr>selectedIndex := Some idx\<rparr>)"

definition submit :: "state \<Rightarrow> state" where
  "submit s =
     (case current s of
        None \<Rightarrow> s
      | Some q \<Rightarrow>
          (case selectedIndex s of
             None \<Rightarrow> s
           | Some sel \<Rightarrow>
               if submitted s then s
               else
                 (let s1 = s\<lparr>submitted := True, answeredCount := answeredCount s + 1\<rparr>;
                      chosen = indexToChoice sel;
                      correct = correctChoice q;
                      correctBool = (chosen = correct);
                      s2 = (if correctBool then s1\<lparr>correctCount := correctCount s1 + 1\<rparr>
                            else s1\<lparr>incorrectIds :=
                                       (if qid q \<in> set (incorrectIds s1) then incorrectIds s1
                                        else incorrectIds s1 @ [qid q])\<rparr>);
                      s3 = s2\<lparr>saving := False\<rparr>
                  in if index s = total s - 1 then s3\<lparr>showReview := True\<rparr> else s3)))"

definition next_question :: "state \<Rightarrow> state" where
  "next_question s =
     (if \<not> submitted s then s
      else if index s < total s - 1
           then s\<lparr>index := index s + 1, selectedIndex := None, submitted := False\<rparr>
           else s\<lparr>showReview := True\<rparr>)"

definition restartQuizKeepQuestions :: "string \<Rightarrow> state \<Rightarrow> state" where
  "restartQuizKeepQuestions newSess s =
     s\<lparr>index := 0, selectedIndex := None, submitted := False, correctCount := 0,
       answeredCount := 0, incorrectIds := [], showReview := False, sessionId := newSess\<rparr>"

definition reshuffle :: "rng \<Rightarrow> nat \<Rightarrow> string \<Rightarrow> state \<Rightarrow> state" where
  "reshuffle r p newSess s =
     restartQuizKeepQuestions newSess (s\<lparr>questions := fst (shuffle r p (questions s))\<rparr>)"

definition retryIncorrectOnly :: "rng \<Rightarrow> nat \<Rightarrow> string \<Rightarrow> state \<Rightarrow> state" where
  "retryIncorrectOnly r p newSess s =
     (let filtered = filter (\<lambda>qq. qid qq \<in> set (incorrectIds s)) (questions s)
      in s\<lparr>questions := fst (shuffle r p filtered), index := 0, selectedIndex := None,
           submitted := False, correctCount := 0, answeredCount := 0, incorrectIds := [],
           showReview := False, sessionId := newSess\<rparr>)"

text \<open>\<open>questions.findIndex((qq) => qq.id === id)\<close>: the first position, or \<open>-1\<close>.\<close>

fun findIndex :: "string \<Rightarrow> Question list \<Rightarrow> int" where
  "findIndex i [] = -1"
| "findIndex i (qq # qs) =
     (if qid qq = i then 0 else (let k = findIndex i qs in if k < 0 then k else k + 1))"

definition missed :: "state \<Rightarrow> Question list" where
  "missed s = filter (\<lambda>qq. qid qq \<in> set (incorrectIds s)) (questions s)"

definition jumpToMissed :: "Question \<Rightarrow> state \<Rightarrow> state" where
  "jumpToMissed m s =
     s\<lparr>showReview := False, index := findIndex (qid m) (questions s), selectedIndex := None,
       submitted := False\<rparr>"

definition backToQuiz :: "state \<Rightarrow> state" where
  "backToQuiz s = s\<lparr>showReview := False\<rparr>"

section \<open>What the page renders\<close>

text \<open>
  The JSX returned by \<open>QuizPage\<close>, as data: which of the five screens is shown and
  the state-dependent content of each. A \<open>className\<close> is kept as the list of
  conditional additions; the progress bar is left out, being a function of
  \<open>index\<close> and \<open>total\<close>, which the header shows.
\<close>

datatype decoration = Hover | Ring | Green | Red | Dim70 | Dim80

record choice_view =
  cv_index :: nat
  cv_text :: string
  cv_classes :: "decoration list"
  cv_disabled :: bool
  cv_badge_correct :: bool
  cv_badge_incorrect :: bool

record quiz_view =
  qv_mode :: Mode
  qv_quizSize :: int
  qv_domainFilter :: string
  qv_saving :: bool
  qv_loaded :: int
  qv_score_correct :: nat
  qv_score_answered :: nat
  qv_position :: int
  qv_question_domain :: string
  qv_question :: string
  qv_difficulty :: Difficulty
  qv_choices :: "choice_view list"
  qv_submit_disabled :: bool
  qv_next_disabled :: bool
  qv_next_is_finish :: bool
  qv_feedback :: "(bool \<times> string) option"
  qv_exam_hint :: bool

record missed_view =
  mv_domain :: string
  mv_difficulty :: Difficulty
  mv_number :: nat
  mv_question :: string
  mv_correct_letter :: Choice
  mv_correct_text :: "string option"
  mv_explanation :: string

record review_view =
  rv_mode :: Mode
  rv_score_correct :: nat
  rv_total :: int
  rv_domainFilter :: string
  rv_missed :: "missed_view list"
  rv_retry_disabled :: bool

datatype view =
    LoadingView
  | ErrorView string
  | NoQuestionsView Mode string
  | ReviewView review_view
  | QuizView quiz_view

definition isExamLock :: "state \<Rightarrow> bool" where
  "isExamLock s = (mode s = exam)"

definition render_choice :: "state \<Rightarrow> Question \<Rightarrow> nat \<Rightarrow> choice_view" where
  "render_choice s q idx =
     (let isSelected = (selectedIndex s = Some idx);
          isCorrectChoice = (idx = correctIndex q);
          showCorrect = (\<not> isExamLock s \<and> submitted s \<and> isCorrectChoice);
          showWrong = (\<not> isExamLock s \<and> submitted s \<and> isSelected \<and> \<not> isCorrect s);
          c1 = (if \<not> submitted s then [Hover] else []);
          c2 = (if \<not> submitted s \<and> isSelected then [Ring] else []);
          c3 = (if \<not> isExamLock s \<and> submitted s
                then (if showCorrect then [Green] else if showWrong then [Red] else [Dim70])
                else if isExamLock s \<and> submitted s then [Dim80] else [])
      in \<lparr>cv_index = idx, cv_text = choices q ! idx, cv_classes = c1 @ c2 @ c3,
          cv_disabled = submitted s,
          cv_badge_correct = (\<not> isExamLock s \<and> submitted s \<and> showCorrect),
          cv_badge_incorrect = (\<not> isExamLock s \<and> submitted s \<and> showWrong)\<rparr>)"

definition render_quiz :: "state \<Rightarrow> Question \<Rightarrow> quiz_view" where
  "render_quiz s q =
     \<lparr>qv_mode = mode s, qv_quizSize = quizSize s, qv_domainFilter = domainFilter s,
      qv_saving = saving s, qv_loaded = total s,
      qv_score_correct = correctCount s, qv_score_answered = answeredCount s,
      qv_position = index s + 1, qv_question_domain = domain q, qv_question = question q,
      qv_difficulty = difficulty q,
      qv_choices = map (render_choice s q) [0..<length (choices q)],
      qv_submit_disabled = (selectedIndex s = None \<or> submitted s),
      qv_next_disabled = (\<not> submitted s),
      qv_next_is_finish = (\<not> index s < total s - 1),
      qv_feedback = (if submitted s \<and> \<not> isExamLock s then Some (isCorrect s, explanation q) else None),
      qv_exam_hint = (submitted s \<and> isExamLock s)\<rparr>"

definition render_missed :: "Question \<Rightarrow> nat \<Rightarrow> missed_view" where
  "render_missed m i =
     \<lparr>mv_domain = domain m, mv_difficulty = difficulty m, mv_number = i + 1,
      mv_question = question m, mv_correct_letter = indexToChoice (correctIndex m),
      mv_correct_text = (if correctIndex m < length (choices m)
                         then Some (choices m ! correctIndex m) else None),
      mv_explanation = explanation m\<rparr>"

definition render_review :: "state \<Rightarrow> review_view" where
  "render_review s =
     \<lparr>rv_mode = mode s, rv_score_correct = correctCount s, rv_total = total s,
      rv_domainFilter = domainFilter s,
      rv_missed = map (\<lambda>(m, i). render_missed m i) (zip (missed s) [0..<length (missed s)]),
      rv_retry_disabled = (length (incorrectIds s) = 0)\<rparr>"

text \<open>
  The early returns of the component, in source order: \<open>loading\<close>, a truthy
  \<open>error\<close> (the empty string is falsy), no current question, \<open>showReview\<close>,
  and the quiz screen.
\<close>

definition render_session :: "state \<Rightarrow> view" where
  "render_session s =
     (case current s of
        None \<Rightarrow> NoQuestionsView (mode s) (domainFilter s)
      | Some q \<Rightarrow> if showReview s then ReviewView (render_review s)
                  else QuizView (render_quiz s q))"

definition render :: "state \<Rightarrow> view" where
  "render s =
     (if loading s then LoadingView
      else (case error s of
              None \<Rightarrow> render_session s
            | Some e \<Rightarrow> if e \<noteq> [] then ErrorView e else render_session s))"

text \<open>Which screen a view is, and the quiz screen it carries.\<close>

definition is_review :: "view \<Rightarrow> bool" where
  "is_review v = (case v of ReviewView _ \<Rightarrow> True | _ \<Rightarrow> False)"

definition is_quiz :: "view \<Rightarrow> bool" where
  "is_quiz v = (case v of QuizView _ \<Rightarrow> True | _ \<Rightarrow> False)"

definition shown_quiz :: "view \<Rightarrow> quiz_view option" where
  "shown_quiz v = (case v of QuizView q \<Rightarrow> Some q | _ \<Rightarrow> None)"

subsection \<open>Clicks\<close>

text \<open>
  A click reaches its \<open>onClick\<close> handler only when the button is on the screen that
  is rendered and its \<open>disabled\<close> attribute is false. \<open>click\<close> gives the state
  after a click on one of the session buttons; the token and the random source are those
  the handler would draw.
\<close>

datatype button =
    ChoiceButton nat
  | SubmitButton
  | NextButton
  | ReshuffleButton
  | RestartButton
  | RetryIncorrectButton
  | BackToQuizButton
  | MissedButton nat

definition click :: "rng \<Rightarrow> nat \<Rightarrow> string \<Rightarrow> button \<Rightarrow> state \<Rightarrow> state" where
  "click r p newSess b s =
     (case render s of
        QuizView v \<Rightarrow>
          (case b of
             ChoiceButton idx \<Rightarrow>
               (if idx < length (qv_choices v) \<and> \<not> cv_disabled (qv_choices v ! idx)
                then selectChoice idx s else s)
           | SubmitButton \<Rightarrow> (if qv_submit_disabled v then s else submit s)
           | NextButton \<Rightarrow> (if qv_next_disabled v then s else next_question s)
           | ReshuffleButton \<Rightarrow> reshuffle r p newSess s
           | _ \<Rightarrow> s)
      | ReviewView v \<Rightarrow>
          (case b of
             RestartButton \<Rightarrow> restartQuizKeepQuestions newSess s
           | RetryIncorrectButton \<Rightarrow>
               (if rv_retry_disabled v then s else retryIncorrectOnly r p newSess s)
           | BackToQuizButton \<Rightarrow> backToQuiz s
           | MissedButton i \<Rightarrow> (if i < length (missed s) then jumpToMissed (missed s ! i) s else s)
           | _ \<Rightarrow> s)
      | _ \<Rightarrow> s)"

text \<open>
  The invariant of a running session: question identifiers are pairwise distinct, and
  every recorded miss is the identifier of a question of the current set.
\<close>

definition session_inv :: "state \<Rightarrow> bool" where
  "session_inv s =
     (distinct (map qid (questions s)) \<and> set (incorrectIds s) \<subseteq> qid ` set (questions s))"

section \<open>Concrete inputs\<close>

text \<open>Questions, a random source and pools at which the theorems below are instantiated.\<close>

definition sample_question :: "string \<Rightarrow> Difficulty \<Rightarrow> Question" where
  "sample_question i d =
     \<lparr>qid = i, domain = ''Hardware'', difficulty = d, qmode = balanced, question = ''Q?'',
      choices = [''w'', ''x'', ''y'', ''z''], correctIndex = 0, correctChoice = A,
      explanation = ''Because.''\<rparr>"

definition sample_rng :: rng where
  "sample_rng n = 7 * n + 3"

definition pool3 :: "Question list" where
  "pool3 = [sample_question ''e1'' easy, sample_question ''m1'' medium, sample_question ''h1'' hard]"

definition pool9 :: "Question list" where
  "pool9 = [sample_question ''e1'' easy, sample_question ''m1'' medium, sample_question ''h1'' hard,
            sample_question ''e2'' easy, sample_question ''m2'' medium, sample_question ''h2'' hard,
            sample_question ''e3'' easy, sample_question ''m3'' medium, sample_question ''h3'' hard]"

definition pool300 :: "Question list" where
  "pool300 = replicate 100 (sample_question ''e'' easy) @ replicate 100 (sample_question ''m'' medium)
             @ replicate 100 (sample_question ''h'' hard)"

definition pool21 :: "Question list" where
  "pool21 = replicate 10 (sample_question ''e'' easy) @ replicate 10 (sample_question ''m'' medium)
            @ [sample_question ''h'' hard]"

definition sample_state :: state where
  "sample_state =
     \<lparr>mode = balanced, quizSize = 25, domainFilter = ''all'', loading = False, saving = False,
      error = None, questions = pool3, index = 0, selectedIndex = None, submitted = False,
      correctCount = 0, answeredCount = 0, incorrectIds = [], showReview = False,
      sessionId = ''sess_1''\<rparr>"

definition review_state :: state where
  "review_state = sample_state\<lparr>index := 2, selectedIndex := Some 1, submitted := True,
     correctCount := 1, answeredCount := 3, incorrectIds := [''e1'', ''h1''], showReview := True\<rparr>"

definition perfect_state :: state where
  "perfect_state = sample_state\<lparr>index := 2, selectedIndex := Some 0, submitted := True,
     correctCount := 3, answeredCount := 3, showReview := True\<rparr>"

definition duplicate_id_state :: state where
  "duplicate_id_state =
     sample_state\<lparr>questions := [sample_question ''e1'' easy, sample_question ''e1'' medium],
       index := 1, selectedIndex := Some 0, submitted := True, correctCount := 1,
       answeredCount := 2, incorrectIds := [''e1''], showReview := True\<rparr>"

definition exam_state :: state where
  "exam_state = sample_state\<lparr>mode := exam\<rparr>"

section \<open>Properties of the sampler\<close>

lemma round_weight_floor:
  "round_weight sz pct = \<lfloor>real_of_int sz * (real_of_int pct / 100) + 1 / 2\<rfloor>"
proof -
  have "real_of_int sz * (real_of_int pct / 100) + 1 / 2 = real_of_int (sz * pct + 50) / real_of_int 100"
    by (simp add: field_simps)
  then show ?thesis
    unfolding round_weight_def by (simp only: floor_divide_of_int_eq)
qed

subsection \<open>Shuffling permutes\<close>

lemma length_swap [simp]: "length (swap a i j) = length a"
  by (simp add: swap_def)

lemma mset_swap_eq: "i < length a \<Longrightarrow> j < length a \<Longrightarrow> mset (swap a i j) = mset a"
  unfolding swap_def by (simp add: mset_swap)

lemma shuffle_loop_mset:
  "i < length a \<or> i = 0 \<Longrightarrow> mset (fst (shuffle_loop r p i a)) = mset a"
proof (induction i arbitrary: p a)
  case 0
  then show ?case by simp
next
  case (Suc i)
  then have lt: "Suc i < length a" by simp
  have j: "r p mod (Suc i + 1) < length a"
  proof -
    have "r p mod (Suc i + 1) < Suc i + 1" by (rule mod_less_divisor) simp
    with lt show ?thesis by linarith
  qed
  have "mset (fst (shuffle_loop r (p + 1) i (swap a (Suc i) (r p mod (Suc i + 1)))))
        = mset (swap a (Suc i) (r p mod (Suc i + 1)))"
    by (rule Suc.IH) (use lt in simp)
  also have "\<dots> = mset a" by (rule mset_swap_eq [OF lt j])
  finally show ?case by (simp add: Let_def)
qed

lemma shuffle_mset: "mset (fst (shuffle r p xs)) = mset xs"
  unfolding shuffle_def by (rule shuffle_loop_mset) (cases xs; simp)

lemma shuffle_length: "length (fst (shuffle r p xs)) = length xs"
  using shuffle_mset [of r p xs] by (metis size_mset)

lemma shuffle_set: "set (fst (shuffle r p xs)) = set xs"
  using shuffle_mset [of r p xs] by (metis set_mset_mset)

lemma slice_0_nonneg: "0 \<le> t \<Longrightarrow> slice 0 t xs = take (nat t) xs"
  by (simp add: slice_def Let_def min_def)

lemma slice_from_nonneg: "0 \<le> t \<Longrightarrow> slice_from t xs = drop (nat t) xs"
  by (auto simp add: slice_from_def slice_def Let_def min_def)

lemma slice_split: "slice 0 t xs @ slice_from t xs = xs"
  by (auto simp add: slice_from_def slice_def Let_def min_def max_def)

subsection \<open>Targets and the shape of a selection\<close>

lemma targets_sum: "targetEasy md sz + targetMed md sz + targetHard md sz = sz"
  by (simp add: targetHard_def)

lemma targetEasy_nonneg: "1 \<le> sz \<Longrightarrow> 0 \<le> targetEasy md sz"
  unfolding targetEasy_def round_weight_def weights_of_def by (cases md) simp_all

lemma targetMed_nonneg: "1 \<le> sz \<Longrightarrow> 0 \<le> targetMed md sz"
  unfolding targetMed_def round_weight_def weights_of_def by (cases md) simp_all

lemma round_sum_balanced: "1 \<le> sz \<Longrightarrow> (sz * 30 + 50) div 100 + (sz * 50 + 50) div 100 \<le> (sz::int)"
  by linarith

lemma round_sum_exam: "1 \<le> sz \<Longrightarrow> (sz * 10 + 50) div 100 + (sz * 45 + 50) div 100 \<le> (sz::int)"
  by linarith

lemma targetHard_nonneg: "1 \<le> sz \<Longrightarrow> 0 \<le> targetHard md sz"
proof (cases md)
  case balanced
  assume "1 \<le> sz"
  from round_sum_balanced [OF this] balanced show ?thesis
    by (simp add: targetHard_def targetEasy_def targetMed_def round_weight_def weights_of_def)
next
  case exam
  assume "1 \<le> sz"
  from round_sum_exam [OF this] exam show ?thesis
    by (simp add: targetHard_def targetEasy_def targetMed_def round_weight_def weights_of_def)
qed

lemma mset_slice_sub: "mset (slice a b xs) \<subseteq># mset xs"
proof -
  have "mset (take n (drop k xs)) \<subseteq># mset xs" for n k
    by (metis mset_subset_eq_add_left mset_subset_eq_add_right subset_mset.order_trans append_take_drop_id mset_append)
  then show ?thesis by (simp add: slice_def Let_def)
qed

lemma mset_slice_split: "mset (slice 0 t xs) + mset (slice_from t xs) = mset xs"
  by (metis mset_append slice_split)

lemma mset_buckets: "mset (bucket easy qs) + mset (bucket medium qs) + mset (bucket hard qs) = mset qs"
proof (induction qs)
  case Nil
  then show ?case by (simp add: bucket_def)
next
  case (Cons q qs)
  then show ?case by (cases "difficulty q") (simp_all add: bucket_def)
qed

lemma pickWeighted_shape:
  fixes r p qs sz md
  defines "takeEasy \<equiv> min (targetEasy md sz) (int (length (bucket easy qs)))"
    and "takeMed \<equiv> min (targetMed md sz) (int (length (bucket medium qs)))"
    and "takeHard \<equiv> min (targetHard md sz) (int (length (bucket hard qs)))"
  obtains be bm bh picked rem fin where
    "mset be = mset (bucket easy qs)" "mset bm = mset (bucket medium qs)"
    "mset bh = mset (bucket hard qs)"
    "picked = slice 0 takeEasy be @ slice 0 takeMed bm @ slice 0 takeHard bh"
    "mset rem = mset (slice_from takeEasy be @ slice_from takeMed bm @ slice_from takeHard bh)"
    "mset fin = mset (if int (length picked) < sz
                      then picked @ slice 0 (sz - int (length picked)) rem else picked)"
    "fst (pickWeighted r p qs sz md) = slice 0 sz fin"
proof -
  obtain be p1 where e1: "shuffle r p (bucket easy qs) = (be, p1)" by (cases "shuffle r p (bucket easy qs)")
  obtain bm p2 where e2: "shuffle r p1 (bucket medium qs) = (bm, p2)" by (cases "shuffle r p1 (bucket medium qs)")
  obtain bh p3 where e3: "shuffle r p2 (bucket hard qs) = (bh, p3)" by (cases "shuffle r p2 (bucket hard qs)")
  let ?left = "slice_from takeEasy be @ slice_from takeMed bm @ slice_from takeHard bh"
  let ?picked = "slice 0 takeEasy be @ slice 0 takeMed bm @ slice 0 takeHard bh"
  obtain rem p4 where e4: "shuffle r p3 ?left = (rem, p4)" by (cases "shuffle r p3 ?left")
  let ?picked' = "if int (length ?picked) < sz then ?picked @ slice 0 (sz - int (length ?picked)) rem else ?picked"
  let ?p4 = "if int (length ?picked) < sz then p4 else p3"
  obtain fin p5 where e5: "shuffle r ?p4 ?picked' = (fin, p5)" by (cases "shuffle r ?p4 ?picked'")
  have be: "mset be = mset (bucket easy qs)" using shuffle_mset [of r p "bucket easy qs"] e1 by simp
  have bm: "mset bm = mset (bucket medium qs)" using shuffle_mset [of r p1 "bucket medium qs"] e2 by simp
  have bh: "mset bh = mset (bucket hard qs)" using shuffle_mset [of r p2 "bucket hard qs"] e3 by simp
  have lens: "length be = length (bucket easy qs)" "length bm = length (bucket medium qs)"
    "length bh = length (bucket hard qs)"
    using be bm bh by (metis size_mset)+
  have rem: "mset rem = mset ?left" using shuffle_mset [of r p3 ?left] e4 by simp
  have fin: "mset fin = mset ?picked'" using shuffle_mset [of r ?p4 ?picked'] e5 by simp
  have res: "fst (pickWeighted r p qs sz md) = slice 0 sz fin"
    unfolding pickWeighted_def
    using e1 e2 e3 e4 e5 lens
    by (simp add: Let_def takeEasy_def takeMed_def takeHard_def split: if_splits)
  show thesis
    by (rule that [OF be bm bh refl rem fin res])
qed

lemma pickWeighted_sub: "mset (fst (pickWeighted r p qs sz md)) \<subseteq># mset qs"
proof -
  define tE where "tE = min (targetEasy md sz) (int (length (bucket easy qs)))"
  define tM where "tM = min (targetMed md sz) (int (length (bucket medium qs)))"
  define tH where "tH = min (targetHard md sz) (int (length (bucket hard qs)))"
  obtain be bm bh picked rem fin where
    be: "mset be = mset (bucket easy qs)" and bm: "mset bm = mset (bucket medium qs)"
    and bh: "mset bh = mset (bucket hard qs)"
    and picked: "picked = slice 0 tE be @ slice 0 tM bm @ slice 0 tH bh"
    and rem: "mset rem = mset (slice_from tE be @ slice_from tM bm @ slice_from tH bh)"
    and fin: "mset fin = mset (if int (length picked) < sz
                      then picked @ slice 0 (sz - int (length picked)) rem else picked)"
    and res: "fst (pickWeighted r p qs sz md) = slice 0 sz fin"
    unfolding tE_def tM_def tH_def
    by (rule pickWeighted_shape [where r=r and p=p and qs=qs and sz=sz and md=md])
  have whole: "mset picked + mset rem = mset qs"
  proof -
    have "mset picked + mset rem
        = (mset (slice 0 tE be) + mset (slice_from tE be))
        + (mset (slice 0 tM bm) + mset (slice_from tM bm))
        + (mset (slice 0 tH bh) + mset (slice_from tH bh))"
      by (simp add: picked rem)
    also have "\<dots> = mset be + mset bm + mset bh"
      by (simp only: mset_slice_split)
    finally show ?thesis by (simp add: be bm bh mset_buckets)
  qed
  have "mset fin \<subseteq># mset picked + mset rem"
  proof (cases "int (length picked) < sz")
    case True
    then have "mset fin = mset picked + mset (slice 0 (sz - int (length picked)) rem)"
      using fin by simp
    then show ?thesis by (simp add: mset_slice_sub)
  next
    case False
    then show ?thesis using fin by simp
  qed
  moreover have "mset (slice 0 sz fin) \<subseteq># mset fin" by (rule mset_slice_sub)
  ultimately show ?thesis using res whole by (metis subset_mset.order_trans)
qed

lemma nat_min_int: "0 \<le> t \<Longrightarrow> nat (min t (int n)) = min (nat t) n"
  unfolding min_def by auto

lemma pickWeighted_mset:
  fixes r p qs sz md
  defines "kE \<equiv> min (nat (targetEasy md sz)) (length (bucket easy qs))"
    and "kM \<equiv> min (nat (targetMed md sz)) (length (bucket medium qs))"
    and "kH \<equiv> min (nat (targetHard md sz)) (length (bucket hard qs))"
  assumes sz: "1 \<le> sz"
  obtains be bm bh rem where
    "mset be = mset (bucket easy qs)" "mset bm = mset (bucket medium qs)"
    "mset bh = mset (bucket hard qs)"
    "mset rem = mset (drop kE be) + mset (drop kM bm) + mset (drop kH bh)"
    "kE + kM + kH \<le> nat sz"
    "mset (fst (pickWeighted r p qs sz md))
       = mset (take kE be) + mset (take kM bm) + mset (take kH bh)
         + mset (take (nat sz - (kE + kM + kH)) rem)"
proof -
  let ?tE = "min (targetEasy md sz) (int (length (bucket easy qs)))"
  let ?tM = "min (targetMed md sz) (int (length (bucket medium qs)))"
  let ?tH = "min (targetHard md sz) (int (length (bucket hard qs)))"
  obtain be bm bh picked rem fin where
    be: "mset be = mset (bucket easy qs)" and bm: "mset bm = mset (bucket medium qs)"
    and bh: "mset bh = mset (bucket hard qs)"
    and picked: "picked = slice 0 ?tE be @ slice 0 ?tM bm @ slice 0 ?tH bh"
    and rem: "mset rem = mset (slice_from ?tE be @ slice_from ?tM bm @ slice_from ?tH bh)"
    and fin: "mset fin = mset (if int (length picked) < sz
                      then picked @ slice 0 (sz - int (length picked)) rem else picked)"
    and res: "fst (pickWeighted r p qs sz md) = slice 0 sz fin"
    by (rule pickWeighted_shape [where r=r and p=p and qs=qs and sz=sz and md=md])
  have lens: "length be = length (bucket easy qs)" "length bm = length (bucket medium qs)"
    "length bh = length (bucket hard qs)"
    using be bm bh by (metis size_mset)+
  have nn: "0 \<le> targetEasy md sz" "0 \<le> targetMed md sz" "0 \<le> targetHard md sz"
    using sz by (simp_all add: targetEasy_nonneg targetMed_nonneg targetHard_nonneg)
  have t0: "0 \<le> ?tE" "0 \<le> ?tM" "0 \<le> ?tH" using nn by simp_all
  have k: "nat ?tE = kE" "nat ?tM = kM" "nat ?tH = kH"
    using nn by (simp_all add: nat_min_int kE_def kM_def kH_def)
  have picked': "picked = take kE be @ take kM bm @ take kH bh"
    using picked t0 k by (simp add: slice_0_nonneg)
  have rem': "mset rem = mset (drop kE be) + mset (drop kM bm) + mset (drop kH bh)"
    using rem t0 k by (simp add: slice_from_nonneg)
  have kle: "kE \<le> length be" "kM \<le> length bm" "kH \<le> length bh"
    by (simp_all add: kE_def kM_def kH_def lens)
  have lp: "length picked = kE + kM + kH"
    using picked' kle by simp
  have "int kE \<le> targetEasy md sz" "int kM \<le> targetMed md sz" "int kH \<le> targetHard md sz"
    using nn by (simp_all add: kE_def kM_def kH_def)
  then have "int (kE + kM + kH) \<le> sz"
    using targets_sum [of md sz] by linarith
  then have Kle: "kE + kM + kH \<le> nat sz" by linarith
  have fin': "mset fin = mset picked + mset (take (nat sz - (kE + kM + kH)) rem)"
  proof (cases "int (length picked) < sz")
    case True
    then have "0 \<le> sz - int (length picked)" by simp
    then have "slice 0 (sz - int (length picked)) rem = take (nat (sz - int (length picked))) rem"
      by (rule slice_0_nonneg)
    moreover have "nat (sz - int (length picked)) = nat sz - (kE + kM + kH)"
      using lp by linarith
    ultimately show ?thesis using fin True by simp
  next
    case False
    then have "nat sz - (kE + kM + kH) = 0" using lp by linarith
    then show ?thesis using fin False by simp
  qed
  have "length fin = length picked + length (take (nat sz - (kE + kM + kH)) rem)"
    using fin' by (metis size_mset size_union)
  then have "length fin \<le> nat sz" using lp Kle by simp
  then have "slice 0 sz fin = fin" using sz by (simp add: slice_0_nonneg)
  then have "mset (fst (pickWeighted r p qs sz md))
       = mset (take kE be) + mset (take kM bm) + mset (take kH bh)
         + mset (take (nat sz - (kE + kM + kH)) rem)"
    using res fin' picked' by simp
  then show thesis
    using that [OF be bm bh rem' Kle] by blast
qed

lemma length_buckets:
  "length (bucket easy qs) + length (bucket medium qs) + length (bucket hard qs) = length qs"
  using mset_buckets [of qs] by (metis size_mset size_union)

lemma pickWeighted_length_aux:
  assumes "1 \<le> sz"
  shows "length (fst (pickWeighted r p qs sz md)) = min (nat sz) (length qs)"
proof -
  define kE where "kE = min (nat (targetEasy md sz)) (length (bucket easy qs))"
  define kM where "kM = min (nat (targetMed md sz)) (length (bucket medium qs))"
  define kH where "kH = min (nat (targetHard md sz)) (length (bucket hard qs))"
  obtain be bm bh rem where
    be: "mset be = mset (bucket easy qs)" and bm: "mset bm = mset (bucket medium qs)"
    and bh: "mset bh = mset (bucket hard qs)"
    and rem: "mset rem = mset (drop kE be) + mset (drop kM bm) + mset (drop kH bh)"
    and K: "kE + kM + kH \<le> nat sz"
    and res: "mset (fst (pickWeighted r p qs sz md))
       = mset (take kE be) + mset (take kM bm) + mset (take kH bh)
         + mset (take (nat sz - (kE + kM + kH)) rem)"
    unfolding kE_def kM_def kH_def
    by (rule pickWeighted_mset [OF assms, where r=r and p=p and qs=qs and md=md])
  have lens: "length be = length (bucket easy qs)" "length bm = length (bucket medium qs)"
    "length bh = length (bucket hard qs)"
    using be bm bh by (metis size_mset)+
  have kle: "kE \<le> length be" "kM \<le> length bm" "kH \<le> length bh"
    by (simp_all add: kE_def kM_def kH_def lens)
  have lrem: "length rem = (length be - kE) + (length bm - kM) + (length bh - kH)"
    using rem by (metis size_mset size_union length_drop)
  have "length (fst (pickWeighted r p qs sz md))
      = length (take kE be) + length (take kM bm) + length (take kH bh)
        + length (take (nat sz - (kE + kM + kH)) rem)"
    using res by (metis size_mset size_union)
  also have "\<dots> = kE + kM + kH + min (nat sz - (kE + kM + kH)) (length rem)"
    using kle by (simp add: min_def)
  also have "\<dots> = min (nat sz) (length be + length bm + length bh)"
    using kle K lrem by (auto simp: min_def split: if_splits simp del: One_nat_def)
  finally show ?thesis by (simp add: lens length_buckets)
qed

lemma mset_sub_same_size: "M \<subseteq># N \<Longrightarrow> size M = size N \<Longrightarrow> M = (N :: 'a multiset)"
  by (metis add_cancel_right_right mset_subset_eq_exists_conv size_eq_0_iff_empty size_union)

text \<open>
  Claim C1. For every pool, every requested size of at least 1 and both modes, the
  selection has exactly \<open>min(size, |pool|)\<close> elements; an empty pool gives an empty
  selection, and a size that is not smaller than the pool returns the whole pool in some
  order.
\<close>

theorem pickWeighted_length:
  "1 \<le> sz \<Longrightarrow>
     length (fst (pickWeighted r p pool sz md)) = min (nat sz) (length pool)
     \<and> (pool = [] \<longrightarrow> fst (pickWeighted r p pool sz md) = [])
     \<and> (int (length pool) \<le> sz \<longrightarrow> mset (fst (pickWeighted r p pool sz md)) = mset pool)"
proof -
  assume sz: "1 \<le> sz"
  have len: "length (fst (pickWeighted r p pool sz md)) = min (nat sz) (length pool)"
    by (rule pickWeighted_length_aux [OF sz])
  have "mset (fst (pickWeighted r p pool sz md)) = mset pool" if "int (length pool) \<le> sz"
  proof (rule mset_sub_same_size)
    show "mset (fst (pickWeighted r p pool sz md)) \<subseteq># mset pool" by (rule pickWeighted_sub)
    show "size (mset (fst (pickWeighted r p pool sz md))) = size (mset pool)"
      using len that by simp
  qed
  with len show ?thesis by auto
qed

theorem pickWeighted_length_witness:
  "length (fst (pickWeighted sample_rng 0 pool3 2 exam)) = 2
   \<and> fst (pickWeighted sample_rng 0 [] 1 balanced) = []
   \<and> mset (fst (pickWeighted sample_rng 0 pool3 5 balanced)) = mset pool3"
  using pickWeighted_length [where sz = 2 and r = sample_rng and p = 0 and pool = pool3 and md = exam]
    pickWeighted_length [where sz = 1 and r = sample_rng and p = 0 and pool = "[]" and md = balanced]
    pickWeighted_length [where sz = 5 and r = sample_rng and p = 0 and pool = pool3 and md = balanced]
  by (simp add: pool3_def)

text \<open>
  Claim C10. For both weight profiles and every integer size of at least 1, the rounded
  easy and medium targets sum to at most the size, so the hard target, computed as the
  remainder, is not negative; the three targets are non-negative and sum to the size, and
  each take count \<open>min(target, bucketLength)\<close> is a non-negative bound, for which
  \<open>slice(0, take)\<close> is the prefix of that length.
\<close>

theorem targets_well_defined:
  "1 \<le> sz \<Longrightarrow>
     targetEasy md sz + targetMed md sz \<le> sz
     \<and> 0 \<le> targetEasy md sz \<and> 0 \<le> targetMed md sz \<and> 0 \<le> targetHard md sz
     \<and> targetEasy md sz + targetMed md sz + targetHard md sz = sz
     \<and> 0 \<le> min (targetEasy md sz) (int n) \<and> 0 \<le> min (targetMed md sz) (int n)
     \<and> 0 \<le> min (targetHard md sz) (int n)
     \<and> slice 0 (min (targetHard md sz) (int (length xs))) xs = take (nat (targetHard md sz)) xs"
proof -
  assume sz: "1 \<le> sz"
  have e: "0 \<le> targetEasy md sz" and m: "0 \<le> targetMed md sz" and h: "0 \<le> targetHard md sz"
    using sz by (simp_all add: targetEasy_nonneg targetMed_nonneg targetHard_nonneg)
  have le: "targetEasy md sz + targetMed md sz \<le> sz"
    using h by (simp add: targetHard_def)
  have "slice 0 (min (targetHard md sz) (int (length xs))) xs
        = take (nat (min (targetHard md sz) (int (length xs)))) xs"
    using h by (simp add: slice_0_nonneg)
  also have "\<dots> = take (nat (targetHard md sz)) xs"
    using h by (simp add: nat_min_int min_def)
  finally show ?thesis using e m h le by (simp add: targets_sum)
qed

theorem targets_well_defined_witness:
  "targetEasy balanced 5 = 2 \<and> targetMed balanced 5 = 3 \<and> targetHard balanced 5 = 0
   \<and> targetEasy exam 1 + targetMed exam 1 \<le> 1 \<and> 0 \<le> targetHard exam 1"
  using targets_well_defined [where sz = 5 and md = balanced]
    targets_well_defined [where sz = 1 and md = exam]
  by (simp add: targetEasy_def targetMed_def targetHard_def round_weight_def weights_of_def)

lemma distinct_mset_sub:
  assumes sub: "mset zs \<subseteq># mset ws" and d: "distinct ws"
  shows "distinct zs"
proof -
  have "count (mset zs) a = (if a \<in> set zs then 1 else 0)" for a
  proof -
    have "count (mset zs) a \<le> count (mset ws) a"
      using sub by (rule mset_subset_eq_count)
    also have "\<dots> \<le> 1"
      using d by (simp add: distinct_count_atmost_1)
    finally have le: "count (mset zs) a \<le> 1" .
    show ?thesis
    proof (cases "a \<in> set zs")
      case True
      then have "count (mset zs) a \<noteq> 0" by (simp only: count_mset_0_iff not_not)
      with le have "count (mset zs) a = 1" by linarith
      with True show ?thesis by simp
    next
      case False
      then show ?thesis by simp
    qed
  qed
  then show ?thesis by (simp add: distinct_count_atmost_1)
qed

lemma distinct_map_mset_sub:
  assumes "mset ys \<subseteq># mset xs" "distinct (map f xs)"
  shows "distinct (map f ys)"
proof -
  have "image_mset f (mset ys) \<subseteq># image_mset f (mset xs)"
    using assms(1) by (rule image_mset_subseteq_mono)
  then have "mset (map f ys) \<subseteq># mset (map f xs)" by simp
  then show ?thesis using assms(2) by (rule distinct_mset_sub)
qed

text \<open>
  Claim C6. For every pool whose questions have pairwise distinct identifiers, every size
  and both modes, the selection has no duplicate identifier and each of its items is an
  element of the pool.
\<close>

theorem pickWeighted_no_duplicates:
  "distinct (map qid pool) \<Longrightarrow>
     distinct (map qid (fst (pickWeighted r p pool sz md)))
     \<and> set (fst (pickWeighted r p pool sz md)) \<subseteq> set pool"
proof -
  assume d: "distinct (map qid pool)"
  have sub: "mset (fst (pickWeighted r p pool sz md)) \<subseteq># mset pool" by (rule pickWeighted_sub)
  have "distinct (map qid (fst (pickWeighted r p pool sz md)))"
    by (rule distinct_map_mset_sub [OF sub d])
  moreover have "set (fst (pickWeighted r p pool sz md)) \<subseteq> set pool"
    using sub by (metis set_mset_mono set_mset_mset)
  ultimately show ?thesis by simp
qed

theorem pickWeighted_no_duplicates_witness:
  "distinct (map qid (fst (pickWeighted sample_rng 0 pool3 2 exam)))
   \<and> set (fst (pickWeighted sample_rng 0 pool3 2 exam)) \<subseteq> set pool3"
proof -
  have "distinct (map qid pool3)" by (simp add: pool3_def sample_question_def)
  then show ?thesis by (rule pickWeighted_no_duplicates)
qed

subsection \<open>Difficulty counts of a selection\<close>

lemma bucket_mset: "mset (bucket d xs) = {#q \<in># mset xs. difficulty q = d#}"
  by (simp add: bucket_def)

lemma bucket_cong: "mset xs = mset ys \<Longrightarrow> mset (bucket d xs) = mset (bucket d ys)"
  by (simp add: bucket_mset)

lemma count_difficulty_cong: "mset xs = mset ys \<Longrightarrow> count_difficulty d xs = count_difficulty d ys"
  unfolding count_difficulty_def using bucket_cong [of xs ys d] by (metis size_mset)

lemma bucket_append: "bucket d (xs @ ys) = bucket d xs @ bucket d ys"
  by (simp add: bucket_def)

lemma perm_bucket_difficulty:
  assumes "mset ys = mset (bucket d' qs)" "q \<in> set ys"
  shows "difficulty q = d'"
proof -
  have "set ys = set (bucket d' qs)" using assms(1) by (metis set_mset_mset)
  with assms(2) show ?thesis by (simp add: bucket_def)
qed

lemma bucket_of_uniform:
  assumes "\<And>q. q \<in> set zs \<Longrightarrow> difficulty q = d'"
  shows "bucket d zs = (if d = d' then zs else [])"
  using assms by (induction zs) (auto simp: bucket_def)

lemma bucket_take_perm:
  assumes "mset ys = mset (bucket d' qs)"
  shows "bucket d (take k ys) = (if d = d' then take k ys else [])"
proof (rule bucket_of_uniform)
  fix q assume "q \<in> set (take k ys)"
  then have "q \<in> set ys" by (rule in_set_takeD)
  with assms show "difficulty q = d'" by (rule perm_bucket_difficulty)
qed

lemma pickWeighted_bucket:
  fixes r p qs sz md
  defines "kE \<equiv> min (nat (targetEasy md sz)) (length (bucket easy qs))"
    and "kM \<equiv> min (nat (targetMed md sz)) (length (bucket medium qs))"
    and "kH \<equiv> min (nat (targetHard md sz)) (length (bucket hard qs))"
  assumes sz: "1 \<le> sz"
  obtains be bm bh rem where
    "mset be = mset (bucket easy qs)" "mset bm = mset (bucket medium qs)"
    "mset bh = mset (bucket hard qs)"
    "mset rem = mset (drop kE be) + mset (drop kM bm) + mset (drop kH bh)"
    "\<forall>d. mset (bucket d (fst (pickWeighted r p qs sz md)))
       = mset (if d = easy then take kE be else []) + mset (if d = medium then take kM bm else [])
         + mset (if d = hard then take kH bh else [])
         + mset (bucket d (take (nat sz - (kE + kM + kH)) rem))"
proof -
  obtain be bm bh rem where
    be: "mset be = mset (bucket easy qs)" and bm: "mset bm = mset (bucket medium qs)"
    and bh: "mset bh = mset (bucket hard qs)"
    and rem: "mset rem = mset (drop kE be) + mset (drop kM bm) + mset (drop kH bh)"
    and res: "mset (fst (pickWeighted r p qs sz md))
       = mset (take kE be) + mset (take kM bm) + mset (take kH bh)
         + mset (take (nat sz - (kE + kM + kH)) rem)"
    unfolding kE_def kM_def kH_def
    by (rule pickWeighted_mset [OF sz, where r=r and p=p and qs=qs and md=md])
  have "mset (bucket d (fst (pickWeighted r p qs sz md)))
       = mset (if d = easy then take kE be else []) + mset (if d = medium then take kM bm else [])
         + mset (if d = hard then take kH bh else [])
         + mset (bucket d (take (nat sz - (kE + kM + kH)) rem))" for d
  proof -
    have "mset (fst (pickWeighted r p qs sz md))
        = mset (take kE be @ take kM bm @ take kH bh @ take (nat sz - (kE + kM + kH)) rem)"
      using res by simp
    then have "mset (bucket d (fst (pickWeighted r p qs sz md)))
        = mset (bucket d (take kE be @ take kM bm @ take kH bh @ take (nat sz - (kE + kM + kH)) rem))"
      by (rule bucket_cong)
    then show ?thesis
      by (simp only: bucket_append mset_append bucket_take_perm [OF be] bucket_take_perm [OF bm]
            bucket_take_perm [OF bh] add.assoc)
  qed
  then show thesis using that [OF be bm bh rem] by blast
qed

lemma pickWeighted_exact_targets:
  assumes sz: "1 \<le> sz"
    and e: "targetEasy md sz \<le> int (count_difficulty easy pool)"
    and m: "targetMed md sz \<le> int (count_difficulty medium pool)"
    and h: "targetHard md sz \<le> int (count_difficulty hard pool)"
  shows "int (count_difficulty easy (fst (pickWeighted r p pool sz md))) = targetEasy md sz
       \<and> int (count_difficulty medium (fst (pickWeighted r p pool sz md))) = targetMed md sz
       \<and> int (count_difficulty hard (fst (pickWeighted r p pool sz md))) = targetHard md sz"
proof -
  define kE where "kE = min (nat (targetEasy md sz)) (length (bucket easy pool))"
  define kM where "kM = min (nat (targetMed md sz)) (length (bucket medium pool))"
  define kH where "kH = min (nat (targetHard md sz)) (length (bucket hard pool))"
  obtain be bm bh rem where
    be: "mset be = mset (bucket easy pool)" and bm: "mset bm = mset (bucket medium pool)"
    and bh: "mset bh = mset (bucket hard pool)"
    and rem: "mset rem = mset (drop kE be) + mset (drop kM bm) + mset (drop kH bh)"
    and res: "\<forall>d. mset (bucket d (fst (pickWeighted r p pool sz md)))
       = mset (if d = easy then take kE be else []) + mset (if d = medium then take kM bm else [])
         + mset (if d = hard then take kH bh else [])
         + mset (bucket d (take (nat sz - (kE + kM + kH)) rem))"
    unfolding kE_def kM_def kH_def
    by (rule pickWeighted_bucket [OF sz, where r=r and p=p and qs=pool and md=md])
  have lens: "length be = length (bucket easy pool)" "length bm = length (bucket medium pool)"
    "length bh = length (bucket hard pool)"
    using be bm bh by (metis size_mset)+
  have nn: "0 \<le> targetEasy md sz" "0 \<le> targetMed md sz" "0 \<le> targetHard md sz"
    using sz by (simp_all add: targetEasy_nonneg targetMed_nonneg targetHard_nonneg)
  have k: "kE = nat (targetEasy md sz)" "kM = nat (targetMed md sz)" "kH = nat (targetHard md sz)"
    using e m h nn by (simp_all add: kE_def kM_def kH_def count_difficulty_def)
  have "int (kE + kM + kH) = sz"
    using k nn targets_sum [of md sz] by simp
  then have fill: "nat sz - (kE + kM + kH) = 0" by linarith
  have kle: "kE \<le> length be" "kM \<le> length bm" "kH \<le> length bh"
    by (simp_all add: kE_def kM_def kH_def lens)
  have cnt: "count_difficulty d (fst (pickWeighted r p pool sz md))
      = (if d = easy then kE else 0) + (if d = medium then kM else 0) + (if d = hard then kH else 0)" for d
  proof -
    have "length (bucket d (fst (pickWeighted r p pool sz md)))
        = length (if d = easy then take kE be else []) + length (if d = medium then take kM bm else [])
         + length (if d = hard then take kH bh else [])
         + length (bucket d (take (nat sz - (kE + kM + kH)) rem))"
      using arg_cong [OF res [rule_format, of d], of size] by (simp only: size_mset size_union)
    also have "bucket d (take (nat sz - (kE + kM + kH)) rem) = []"
      by (simp add: fill bucket_def)
    finally show ?thesis
      using kle by (cases d) (simp_all add: count_difficulty_def)
  qed
  show ?thesis using nn by (simp add: cnt k)
qed

text \<open>
  Claim C3. For every size of at least 1 and both modes, when each difficulty bucket holds
  at least its target count, the selection contains exactly the target number of questions
  of each difficulty. In particular, size 100 in exam mode over buckets of at least 100
  each gives exactly 10 easy, 45 medium and 45 hard questions, and size 5 in balanced mode
  over a pool of 3 easy, 3 medium and 3 hard gives exactly 2 easy, 3 medium and 0 hard,
  5 in all.
\<close>

theorem pickWeighted_meets_targets:
  "(1 \<le> sz \<and> targetEasy md sz \<le> int (count_difficulty easy pool)
      \<and> targetMed md sz \<le> int (count_difficulty medium pool)
      \<and> targetHard md sz \<le> int (count_difficulty hard pool)
    \<longrightarrow> int (count_difficulty easy (fst (pickWeighted r p pool sz md))) = targetEasy md sz
      \<and> int (count_difficulty medium (fst (pickWeighted r p pool sz md))) = targetMed md sz
      \<and> int (count_difficulty hard (fst (pickWeighted r p pool sz md))) = targetHard md sz)
   \<and> (100 \<le> count_difficulty easy pool \<and> 100 \<le> count_difficulty medium pool
      \<and> 100 \<le> count_difficulty hard pool
    \<longrightarrow> count_difficulty easy (fst (pickWeighted r p pool 100 exam)) = 10
      \<and> count_difficulty medium (fst (pickWeighted r p pool 100 exam)) = 45
      \<and> count_difficulty hard (fst (pickWeighted r p pool 100 exam)) = 45)
   \<and> (count_difficulty easy pool = 3 \<and> count_difficulty medium pool = 3
      \<and> count_difficulty hard pool = 3
    \<longrightarrow> count_difficulty easy (fst (pickWeighted r p pool 5 balanced)) = 2
      \<and> count_difficulty medium (fst (pickWeighted r p pool 5 balanced)) = 3
      \<and> count_difficulty hard (fst (pickWeighted r p pool 5 balanced)) = 0
      \<and> length (fst (pickWeighted r p pool 5 balanced)) = 5)"
proof (intro conjI impI)
  assume a: "100 \<le> count_difficulty easy pool \<and> 100 \<le> count_difficulty medium pool
      \<and> 100 \<le> count_difficulty hard pool"
  have t: "targetEasy exam 100 = 10" "targetMed exam 100 = 45" "targetHard exam 100 = 45"
    by (simp_all add: targetEasy_def targetMed_def targetHard_def round_weight_def weights_of_def)
  have "int (count_difficulty easy (fst (pickWeighted r p pool 100 exam))) = targetEasy exam 100
       \<and> int (count_difficulty medium (fst (pickWeighted r p pool 100 exam))) = targetMed exam 100
       \<and> int (count_difficulty hard (fst (pickWeighted r p pool 100 exam))) = targetHard exam 100"
    by (rule pickWeighted_exact_targets) (use a t in simp_all)
  then show "count_difficulty easy (fst (pickWeighted r p pool 100 exam)) = 10"
    "count_difficulty medium (fst (pickWeighted r p pool 100 exam)) = 45"
    "count_difficulty hard (fst (pickWeighted r p pool 100 exam)) = 45"
    using t by simp_all
next
  assume a: "count_difficulty easy pool = 3 \<and> count_difficulty medium pool = 3
      \<and> count_difficulty hard pool = 3"
  have t: "targetEasy balanced 5 = 2" "targetMed balanced 5 = 3" "targetHard balanced 5 = 0"
    by (simp_all add: targetEasy_def targetMed_def targetHard_def round_weight_def weights_of_def)
  have "int (count_difficulty easy (fst (pickWeighted r p pool 5 balanced))) = targetEasy balanced 5
       \<and> int (count_difficulty medium (fst (pickWeighted r p pool 5 balanced))) = targetMed balanced 5
       \<and> int (count_difficulty hard (fst (pickWeighted r p pool 5 balanced))) = targetHard balanced 5"
    by (rule pickWeighted_exact_targets) (use a t in simp_all)
  then show "count_difficulty easy (fst (pickWeighted r p pool 5 balanced)) = 2"
    "count_difficulty medium (fst (pickWeighted r p pool 5 balanced)) = 3"
    "count_difficulty hard (fst (pickWeighted r p pool 5 balanced)) = 0"
    using t by simp_all
  have "length pool = 9" using a length_buckets [of pool] by (simp add: count_difficulty_def)
  then show "length (fst (pickWeighted r p pool 5 balanced)) = 5"
    using pickWeighted_length_aux [of 5 r p pool balanced] by simp
next
  assume a: "1 \<le> sz \<and> targetEasy md sz \<le> int (count_difficulty easy pool)
      \<and> targetMed md sz \<le> int (count_difficulty medium pool)
      \<and> targetHard md sz \<le> int (count_difficulty hard pool)"
  have g: "int (count_difficulty easy (fst (pickWeighted r p pool sz md))) = targetEasy md sz
       \<and> int (count_difficulty medium (fst (pickWeighted r p pool sz md))) = targetMed md sz
       \<and> int (count_difficulty hard (fst (pickWeighted r p pool sz md))) = targetHard md sz"
    by (rule pickWeighted_exact_targets) (use a in simp_all)
  from g show "int (count_difficulty easy (fst (pickWeighted r p pool sz md))) = targetEasy md sz" by simp
  from g show "int (count_difficulty medium (fst (pickWeighted r p pool sz md))) = targetMed md sz" by simp
  from g show "int (count_difficulty hard (fst (pickWeighted r p pool sz md))) = targetHard md sz" by simp
qed

lemma pool9_counts:
  "count_difficulty easy pool9 = 3" "count_difficulty medium pool9 = 3" "count_difficulty hard pool9 = 3"
  by (simp_all add: count_difficulty_def bucket_def pool9_def sample_question_def)

lemma pool300_counts:
  "count_difficulty easy pool300 = 100" "count_difficulty medium pool300 = 100"
  "count_difficulty hard pool300 = 100"
  by (simp_all add: count_difficulty_def bucket_def pool300_def sample_question_def)

lemma pool21_counts:
  "count_difficulty easy pool21 = 10" "count_difficulty medium pool21 = 10"
  "count_difficulty hard pool21 = 1"
  by (simp_all add: count_difficulty_def bucket_def pool21_def sample_question_def)

theorem pickWeighted_meets_targets_witness:
  "count_difficulty easy (fst (pickWeighted sample_rng 0 pool9 5 balanced)) = 2
   \<and> count_difficulty medium (fst (pickWeighted sample_rng 0 pool9 5 balanced)) = 3
   \<and> count_difficulty hard (fst (pickWeighted sample_rng 0 pool9 5 balanced)) = 0
   \<and> length (fst (pickWeighted sample_rng 0 pool9 5 balanced)) = 5
   \<and> int (count_difficulty easy (fst (pickWeighted sample_rng 0 pool9 5 balanced))) = targetEasy balanced 5
   \<and> count_difficulty easy (fst (pickWeighted sample_rng 0 pool300 100 exam)) = 10
   \<and> count_difficulty medium (fst (pickWeighted sample_rng 0 pool300 100 exam)) = 45
   \<and> count_difficulty hard (fst (pickWeighted sample_rng 0 pool300 100 exam)) = 45"
proof -
  have t: "targetEasy balanced 5 = 2" "targetMed balanced 5 = 3" "targetHard balanced 5 = 0"
    by (simp_all add: targetEasy_def targetMed_def targetHard_def round_weight_def weights_of_def)
  show ?thesis
    using pickWeighted_meets_targets [where pool = pool9 and sz = 5 and md = balanced
        and r = sample_rng and p = 0]
      pickWeighted_meets_targets [where pool = pool300 and sz = 100 and md = exam
        and r = sample_rng and p = 0]
    by (simp add: pool9_counts pool300_counts t)
qed

text \<open>
  Claim C7. For size 10 in balanced mode over a pool with exactly one hard question and
  at least ten easy and ten medium ones, the selection has exactly 10 elements (the fill
  from the leftovers makes up the hard shortfall) and its hard questions are exactly that
  one hard question of the pool.
\<close>

theorem pickWeighted_hard_shortfall:
  "10 \<le> count_difficulty easy pool \<and> 10 \<le> count_difficulty medium pool
     \<and> count_difficulty hard pool = 1 \<Longrightarrow>
   length (fst (pickWeighted r p pool 10 balanced)) = 10
   \<and> count_difficulty hard (fst (pickWeighted r p pool 10 balanced)) = 1
   \<and> bucket hard (fst (pickWeighted r p pool 10 balanced)) = bucket hard pool"
proof -
  assume a: "10 \<le> count_difficulty easy pool \<and> 10 \<le> count_difficulty medium pool
     \<and> count_difficulty hard pool = 1"
  have t: "targetEasy balanced 10 = 3" "targetMed balanced 10 = 5" "targetHard balanced 10 = 2"
    by (simp_all add: targetEasy_def targetMed_def targetHard_def round_weight_def weights_of_def)
  define kE where "kE = min (nat (targetEasy balanced 10)) (length (bucket easy pool))"
  define kM where "kM = min (nat (targetMed balanced 10)) (length (bucket medium pool))"
  define kH where "kH = min (nat (targetHard balanced 10)) (length (bucket hard pool))"
  have k: "kE = 3" "kM = 5" "kH = 1"
    using a by (simp_all add: kE_def kM_def kH_def t count_difficulty_def)
  obtain be bm bh rem where
    be: "mset be = mset (bucket easy pool)" and bm: "mset bm = mset (bucket medium pool)"
    and bh: "mset bh = mset (bucket hard pool)"
    and rem: "mset rem = mset (drop kE be) + mset (drop kM bm) + mset (drop kH bh)"
    and res: "\<forall>d. mset (bucket d (fst (pickWeighted r p pool 10 balanced)))
       = mset (if d = easy then take kE be else []) + mset (if d = medium then take kM bm else [])
         + mset (if d = hard then take kH bh else [])
         + mset (bucket d (take (nat 10 - (kE + kM + kH)) rem))"
    unfolding kE_def kM_def kH_def
    by (rule pickWeighted_bucket [where sz = 10 and r=r and p=p and qs=pool and md=balanced]) simp
  have lbh: "length bh = 1"
    using bh a by (metis count_difficulty_def size_mset)
  then have dropbh: "drop kH bh = []" by (simp add: k)
  have nohard: "difficulty q \<noteq> hard" if "q \<in> set rem" for q
  proof -
    have "q \<in># mset (drop kE be) + mset (drop kM bm)"
      using that rem dropbh by (metis add.right_neutral mset.simps(1) set_mset_mset)
    then have "q \<in> set be \<or> q \<in> set bm"
      by (auto dest: in_set_dropD)
    then show ?thesis
      using perm_bucket_difficulty [OF be] perm_bucket_difficulty [OF bm] by auto
  qed
  have "bucket hard (take (nat 10 - (kE + kM + kH)) rem) = []"
    unfolding bucket_def using nohard by (auto simp: filter_empty_conv dest: in_set_takeD)
  then have "mset (bucket hard (fst (pickWeighted r p pool 10 balanced))) = mset bh"
    using res [rule_format, of hard] lbh by (simp add: k)
  then have hm: "mset (bucket hard (fst (pickWeighted r p pool 10 balanced))) = mset (bucket hard pool)"
    using bh by simp
  have l1: "length (bucket hard pool) = 1" using a by (simp add: count_difficulty_def)
  then obtain x where x: "bucket hard pool = [x]"
    by (cases "bucket hard pool") auto
  have same: "bucket hard (fst (pickWeighted r p pool 10 balanced)) = bucket hard pool"
    using hm unfolding x by simp
  have "21 \<le> length pool"
    using a length_buckets [of pool] by (simp add: count_difficulty_def)
  then have len: "length (fst (pickWeighted r p pool 10 balanced)) = 10"
    using pickWeighted_length_aux [of 10 r p pool balanced] by simp
  show ?thesis using len same l1 by (simp add: count_difficulty_def)
qed

theorem pickWeighted_hard_shortfall_witness:
  "length (fst (pickWeighted sample_rng 0 pool21 10 balanced)) = 10
   \<and> count_difficulty hard (fst (pickWeighted sample_rng 0 pool21 10 balanced)) = 1
   \<and> bucket hard (fst (pickWeighted sample_rng 0 pool21 10 balanced)) = [sample_question ''h'' hard]"
  using pickWeighted_hard_shortfall [where pool = pool21 and r = sample_rng and p = 0]
  by (simp add: pool21_counts) (simp add: bucket_def pool21_def sample_question_def)

section \<open>Properties of the session state machine\<close>

lemma submit_noop:
  "current s = None \<or> selectedIndex s = None \<or> submitted s \<Longrightarrow> submit s = s"
  by (auto simp: submit_def split: option.splits)

lemma current_cong:
  "questions t = questions s \<Longrightarrow> index t = index s \<Longrightarrow> current t = current s"
  by (simp add: current_def total_def)

lemma submit_fires:
  assumes "current s = Some q" "selectedIndex s = Some sel" "\<not> submitted s"
  shows "submit s =
     s\<lparr>submitted := True, answeredCount := answeredCount s + 1,
       correctCount := (if indexToChoice sel = correctChoice q then correctCount s + 1 else correctCount s),
       incorrectIds := (if indexToChoice sel = correctChoice q \<or> qid q \<in> set (incorrectIds s)
                        then incorrectIds s else incorrectIds s @ [qid q]),
       saving := False,
       showReview := (if index s = total s - 1 then True else showReview s)\<rparr>"
  using assms by (simp add: submit_def Let_def)

lemma submit_idem: "submit (submit s) = submit s"
proof (cases "current s = None \<or> selectedIndex s = None \<or> submitted s")
  case True
  then show ?thesis by (simp add: submit_noop)
next
  case False
  then obtain q sel where q: "current s = Some q" and sel: "selectedIndex s = Some sel"
    and ns: "\<not> submitted s" by auto
  have "submitted (submit s)" by (simp add: submit_fires [OF q sel ns])
  then show ?thesis by (simp add: submit_noop)
qed

lemma render_review_iff:
  "is_review (render s) \<longleftrightarrow>
     \<not> loading s \<and> (error s = None \<or> error s = Some []) \<and> current s \<noteq> None \<and> showReview s"
  by (auto simp: is_review_def render_def render_session_def split: option.splits)

lemma render_quiz_iff:
  "is_quiz (render s) \<longleftrightarrow>
     \<not> loading s \<and> (error s = None \<or> error s = Some []) \<and> current s \<noteq> None \<and> \<not> showReview s"
  by (auto simp: is_quiz_def render_def render_session_def split: option.splits)

text \<open>
  Claim C2. Submit acts only when there is a current question, a choice is selected and the
  question is not yet submitted; otherwise, and so on a repeated call after a submission,
  it changes nothing. When it acts it marks the question submitted, adds exactly 1 to the
  attempted count, adds exactly 1 to the correct count if and only if the chosen letter
  equals the question's correct letter, and otherwise puts the question's identifier into
  the incorrect list once (an identifier already there is not added again); when the
  current question is the last one it sets the review flag, so that the page leaves the
  quiz screen for the review screen.
\<close>

theorem submit_contract:
  "(current s = None \<or> selectedIndex s = None \<or> submitted s \<longrightarrow> submit s = s)
   \<and> submit (submit s) = submit s
   \<and> (current s = Some q \<and> selectedIndex s = Some sel \<and> \<not> submitted s \<longrightarrow>
        submitted (submit s)
        \<and> answeredCount (submit s) = answeredCount s + 1
        \<and> (indexToChoice sel = correctChoice q \<longrightarrow>
             correctCount (submit s) = correctCount s + 1
             \<and> incorrectIds (submit s) = incorrectIds s)
        \<and> (indexToChoice sel \<noteq> correctChoice q \<longrightarrow>
             correctCount (submit s) = correctCount s
             \<and> set (incorrectIds (submit s)) = insert (qid q) (set (incorrectIds s))
             \<and> (qid q \<in> set (incorrectIds s) \<longrightarrow> incorrectIds (submit s) = incorrectIds s)
             \<and> (qid q \<notin> set (incorrectIds s) \<longrightarrow>
                  incorrectIds (submit s) = incorrectIds s @ [qid q])
             \<and> (distinct (incorrectIds s) \<longrightarrow> distinct (incorrectIds (submit s))))
        \<and> (index s = total s - 1 \<longrightarrow>
             showReview (submit s) \<and> (is_quiz (render s) \<longrightarrow> is_review (render (submit s))))
        \<and> questions (submit s) = questions s \<and> index (submit s) = index s
        \<and> selectedIndex (submit s) = selectedIndex s \<and> sessionId (submit s) = sessionId s)"
proof (intro conjI impI)
  assume "current s = None \<or> selectedIndex s = None \<or> submitted s"
  then show "submit s = s" by (rule submit_noop)
next
  show "submit (submit s) = submit s" by (rule submit_idem)
next
  assume a: "current s = Some q \<and> selectedIndex s = Some sel \<and> \<not> submitted s"
  then have f: "submit s =
     s\<lparr>submitted := True, answeredCount := answeredCount s + 1,
       correctCount := (if indexToChoice sel = correctChoice q then correctCount s + 1 else correctCount s),
       incorrectIds := (if indexToChoice sel = correctChoice q \<or> qid q \<in> set (incorrectIds s)
                        then incorrectIds s else incorrectIds s @ [qid q]),
       saving := False,
       showReview := (if index s = total s - 1 then True else showReview s)\<rparr>"
    by (simp add: submit_fires)
  show "submitted (submit s)" by (simp add: f)
  show "answeredCount (submit s) = answeredCount s + 1" by (simp add: f)
  show "questions (submit s) = questions s" by (simp add: f)
  show "index (submit s) = index s" by (simp add: f)
  show "selectedIndex (submit s) = selectedIndex s" by (simp add: f)
  show "sessionId (submit s) = sessionId s" by (simp add: f)
  {
    assume "indexToChoice sel = correctChoice q"
    then show "correctCount (submit s) = correctCount s + 1" by (simp add: f)
  next
    assume "indexToChoice sel = correctChoice q"
    then show "incorrectIds (submit s) = incorrectIds s" by (simp add: f)
  next
    assume "indexToChoice sel \<noteq> correctChoice q"
    then show "correctCount (submit s) = correctCount s" by (simp add: f)
  next
    assume "indexToChoice sel \<noteq> correctChoice q"
    then show "set (incorrectIds (submit s)) = insert (qid q) (set (incorrectIds s))"
      by (auto simp: f)
  next
    assume "indexToChoice sel \<noteq> correctChoice q" "qid q \<in> set (incorrectIds s)"
    then show "incorrectIds (submit s) = incorrectIds s" by (simp add: f)
  next
    assume "indexToChoice sel \<noteq> correctChoice q" "qid q \<notin> set (incorrectIds s)"
    then show "incorrectIds (submit s) = incorrectIds s @ [qid q]" by (simp add: f)
  next
    assume "indexToChoice sel \<noteq> correctChoice q" "distinct (incorrectIds s)"
    then show "distinct (incorrectIds (submit s))" by (simp add: f)
  next
    assume "index s = total s - 1"
    then show "showReview (submit s)" by (simp add: f)
  next
    assume l: "index s = total s - 1" and v: "is_quiz (render s)"
    have c: "current (submit s) = current s"
      by (rule current_cong) (simp_all add: f)
    show "is_review (render (submit s))"
      using v l c by (simp add: render_review_iff render_quiz_iff) (simp add: f)
  }
qed

lemma sample_current:
  "current (sample_state\<lparr>selectedIndex := x\<rparr>) = Some (sample_question ''e1'' easy)"
  "current (sample_state\<lparr>selectedIndex := x, incorrectIds := y\<rparr>) = Some (sample_question ''e1'' easy)"
  "current (sample_state\<lparr>index := 2, selectedIndex := x\<rparr>) = Some (sample_question ''h1'' hard)"
  "current sample_state = Some (sample_question ''e1'' easy)"
  by (simp_all add: current_def total_def sample_state_def pool3_def)

theorem submit_contract_witness:
  "submit sample_state = sample_state
   \<and> answeredCount (submit (sample_state\<lparr>selectedIndex := Some 1\<rparr>)) = 1
   \<and> correctCount (submit (sample_state\<lparr>selectedIndex := Some 1\<rparr>)) = 0
   \<and> incorrectIds (submit (sample_state\<lparr>selectedIndex := Some 1\<rparr>)) = [''e1'']
   \<and> incorrectIds (submit (sample_state\<lparr>selectedIndex := Some 1, incorrectIds := [''e1'']\<rparr>)) = [''e1'']
   \<and> correctCount (submit (sample_state\<lparr>selectedIndex := Some 0\<rparr>)) = 1
   \<and> is_review (render (submit (sample_state\<lparr>index := 2, selectedIndex := Some 0\<rparr>)))"
proof -
  have q: "is_quiz (render (sample_state\<lparr>index := 2, selectedIndex := Some 0\<rparr>))"
    by (simp add: render_quiz_iff sample_current) (simp add: sample_state_def)
  have 1: "submit sample_state = sample_state"
    using submit_contract [of sample_state] by (simp add: sample_state_def)
  have 2: "answeredCount (submit (sample_state\<lparr>selectedIndex := Some 1\<rparr>)) = 1
     \<and> correctCount (submit (sample_state\<lparr>selectedIndex := Some 1\<rparr>)) = 0
     \<and> incorrectIds (submit (sample_state\<lparr>selectedIndex := Some 1\<rparr>)) = [''e1'']"
    using submit_contract [of "sample_state\<lparr>selectedIndex := Some 1\<rparr>" "sample_question ''e1'' easy" 1]
    by (simp add: sample_current) (simp add: sample_state_def sample_question_def)
  have 3: "incorrectIds (submit (sample_state\<lparr>selectedIndex := Some 1, incorrectIds := [''e1'']\<rparr>)) = [''e1'']"
    using submit_contract [of "sample_state\<lparr>selectedIndex := Some 1, incorrectIds := [''e1'']\<rparr>"
        "sample_question ''e1'' easy" 1]
    by (simp add: sample_current) (simp add: sample_state_def sample_question_def)
  have 4: "correctCount (submit (sample_state\<lparr>selectedIndex := Some 0\<rparr>)) = 1"
    using submit_contract [of "sample_state\<lparr>selectedIndex := Some 0\<rparr>" "sample_question ''e1'' easy" 0]
    by (simp add: sample_current) (simp add: sample_state_def sample_question_def)
  have 5: "is_review (render (submit (sample_state\<lparr>index := 2, selectedIndex := Some 0\<rparr>)))"
    using submit_contract [of "sample_state\<lparr>index := 2, selectedIndex := Some 0\<rparr>"
        "sample_question ''h1'' hard" 0] q
    by (simp add: sample_current) (simp add: sample_state_def total_def pool3_def)
  from 1 2 3 4 5 show ?thesis by simp
qed

text \<open>
  Claim C9. Advance changes nothing unless the current question is submitted; when it is
  and more questions remain, the index moves to the next question and the choice and the
  submitted flag are reset; when the current question is the last one, the review flag is
  set and the page shows the review screen.
\<close>

theorem next_contract:
  "(\<not> submitted s \<longrightarrow> next_question s = s)
   \<and> (submitted s \<and> index s < total s - 1 \<longrightarrow>
        next_question s = s\<lparr>index := index s + 1, selectedIndex := None, submitted := False\<rparr>
        \<and> index (next_question s) = index s + 1
        \<and> selectedIndex (next_question s) = None
        \<and> \<not> submitted (next_question s)
        \<and> showReview (next_question s) = showReview s)
   \<and> (submitted s \<and> index s = total s - 1 \<longrightarrow>
        next_question s = s\<lparr>showReview := True\<rparr>
        \<and> showReview (next_question s)
        \<and> (is_quiz (render s) \<longrightarrow> is_review (render (next_question s))))"
proof (intro conjI impI)
  assume "\<not> submitted s"
  then show "next_question s = s" by (simp add: next_question_def)
next
  assume a: "submitted s \<and> index s < total s - 1"
  then show n: "next_question s = s\<lparr>index := index s + 1, selectedIndex := None, submitted := False\<rparr>"
    by (simp add: next_question_def)
  show "index (next_question s) = index s + 1" "selectedIndex (next_question s) = None"
    "\<not> submitted (next_question s)" "showReview (next_question s) = showReview s"
    by (simp_all add: n)
next
  assume a: "submitted s \<and> index s = total s - 1"
  then show n: "next_question s = s\<lparr>showReview := True\<rparr>"
    by (simp add: next_question_def)
  show "showReview (next_question s)" by (simp add: n)
  assume v: "is_quiz (render s)"
  have "current (next_question s) = current s"
    by (rule current_cong) (simp_all add: n)
  with v show "is_review (render (next_question s))"
    by (simp add: render_review_iff render_quiz_iff) (simp add: n)
qed

theorem next_contract_witness:
  "next_question sample_state = sample_state
   \<and> index (next_question (sample_state\<lparr>selectedIndex := Some 0, submitted := True\<rparr>)) = 1
   \<and> selectedIndex (next_question (sample_state\<lparr>selectedIndex := Some 0, submitted := True\<rparr>)) = None
   \<and> \<not> submitted (next_question (sample_state\<lparr>selectedIndex := Some 0, submitted := True\<rparr>))
   \<and> is_review (render (next_question (sample_state\<lparr>index := 2, submitted := True\<rparr>)))"
proof -
  have 1: "next_question sample_state = sample_state"
    using next_contract [of sample_state] by (simp add: sample_state_def)
  have 2: "index (next_question (sample_state\<lparr>selectedIndex := Some 0, submitted := True\<rparr>)) = 1
     \<and> selectedIndex (next_question (sample_state\<lparr>selectedIndex := Some 0, submitted := True\<rparr>)) = None
     \<and> \<not> submitted (next_question (sample_state\<lparr>selectedIndex := Some 0, submitted := True\<rparr>))"
    using next_contract [of "sample_state\<lparr>selectedIndex := Some 0, submitted := True\<rparr>"]
    by (simp add: sample_state_def total_def pool3_def)
  have q: "is_quiz (render (sample_state\<lparr>index := 2, submitted := True\<rparr>))"
    by (simp add: render_quiz_iff current_def total_def sample_state_def pool3_def)
  have h: "submitted (sample_state\<lparr>index := 2, submitted := True\<rparr>)
      \<and> index (sample_state\<lparr>index := 2, submitted := True\<rparr>)
        = total (sample_state\<lparr>index := 2, submitted := True\<rparr>) - 1"
    by (simp add: sample_state_def total_def pool3_def)
  have 3: "is_review (render (next_question (sample_state\<lparr>index := 2, submitted := True\<rparr>)))"
    using next_contract [of "sample_state\<lparr>index := 2, submitted := True\<rparr>"] q h
    by blast
  from 1 2 3 show ?thesis by simp
qed

lemma filter_ids_length:
  assumes d: "distinct (map qid qs)" and sub: "set ids \<subseteq> qid ` set qs"
  shows "length (filter (\<lambda>qq. qid qq \<in> set ids) qs) = card (set ids)"
proof -
  let ?f = "filter (\<lambda>qq. qid qq \<in> set ids) qs"
  have "distinct (map qid ?f)" using d by (rule distinct_map_filter)
  then have "card (set (map qid ?f)) = length (map qid ?f)" by (rule distinct_card)
  moreover have "set (map qid ?f) = set ids" using sub by auto
  ultimately show ?thesis by simp
qed

text \<open>
  Claim C8. Retry-incorrect replaces the question set by exactly the questions whose
  identifier is a recorded miss, in some order; in a session whose question identifiers are
  pairwise distinct and whose misses are identifiers of its questions, these are exactly
  \<open>k\<close> questions for \<open>k\<close> distinct misses. The index is 0, choice and
  submitted flag are cleared, both counts are 0, the list of misses is empty, and the
  session identity is the token the generator has returned. The handler never compares
  that token with the prior identity: when the generator returns the prior token the
  identity stays the same, and with two questions sharing an identifier one miss gives a
  session of two questions.
\<close>

theorem retryIncorrectOnly_contract:
  "mset (questions (retryIncorrectOnly r p newSess s))
     = mset (filter (\<lambda>qq. qid qq \<in> set (incorrectIds s)) (questions s))
   \<and> set (questions (retryIncorrectOnly r p newSess s))
     = {qq \<in> set (questions s). qid qq \<in> set (incorrectIds s)}
   \<and> (session_inv s \<longrightarrow>
        length (questions (retryIncorrectOnly r p newSess s)) = card (set (incorrectIds s)))
   \<and> index (retryIncorrectOnly r p newSess s) = 0
   \<and> selectedIndex (retryIncorrectOnly r p newSess s) = None
   \<and> \<not> submitted (retryIncorrectOnly r p newSess s)
   \<and> correctCount (retryIncorrectOnly r p newSess s) = 0
   \<and> answeredCount (retryIncorrectOnly r p newSess s) = 0
   \<and> incorrectIds (retryIncorrectOnly r p newSess s) = []
   \<and> \<not> showReview (retryIncorrectOnly r p newSess s)
   \<and> sessionId (retryIncorrectOnly r p newSess s) = newSess"
proof -
  let ?f = "filter (\<lambda>qq. qid qq \<in> set (incorrectIds s)) (questions s)"
  have qs: "questions (retryIncorrectOnly r p newSess s) = fst (shuffle r p ?f)"
    by (simp add: retryIncorrectOnly_def Let_def)
  have m: "mset (questions (retryIncorrectOnly r p newSess s)) = mset ?f"
    by (simp only: qs shuffle_mset)
  have st: "set (questions (retryIncorrectOnly r p newSess s))
           = {qq \<in> set (questions s). qid qq \<in> set (incorrectIds s)}"
    by (simp only: qs shuffle_set) auto
  have l: "length (questions (retryIncorrectOnly r p newSess s)) = card (set (incorrectIds s))"
    if inv: "session_inv s"
  proof -
    have "length (questions (retryIncorrectOnly r p newSess s)) = length ?f"
      by (simp only: qs shuffle_length)
    also have "\<dots> = card (set (incorrectIds s))"
      using inv by (intro filter_ids_length) (simp_all add: session_inv_def)
    finally show ?thesis .
  qed
  show ?thesis using m st l by (simp add: retryIncorrectOnly_def Let_def)
qed

theorem retryIncorrectOnly_contract_witness:
  "length (questions (retryIncorrectOnly sample_rng 0 ''sess_2'' review_state)) = 2
   \<and> set (questions (retryIncorrectOnly sample_rng 0 ''sess_2'' review_state))
       = {sample_question ''e1'' easy, sample_question ''h1'' hard}
   \<and> correctCount (retryIncorrectOnly sample_rng 0 ''sess_2'' review_state) = 0
   \<and> answeredCount (retryIncorrectOnly sample_rng 0 ''sess_2'' review_state) = 0
   \<and> sessionId (retryIncorrectOnly sample_rng 0 ''sess_2'' review_state) = ''sess_2''"
proof -
  have inv: "session_inv review_state"
    by (simp add: session_inv_def review_state_def sample_state_def pool3_def sample_question_def)
  have ids: "incorrectIds review_state = [''e1'', ''h1'']"
    by (simp add: review_state_def sample_state_def)
  have f: "{qq \<in> set (questions review_state). qid qq \<in> set (incorrectIds review_state)}
      = {sample_question ''e1'' easy, sample_question ''h1'' hard}"
    by (auto simp: review_state_def sample_state_def pool3_def sample_question_def)
  show ?thesis
    using retryIncorrectOnly_contract [of sample_rng 0 "''sess_2''" review_state] f inv
    by (simp add: ids)
qed

text \<open>
  Neither a changed identity nor the length \<open>k\<close> holds unconditionally: with the
  generator returning the prior token the identity after the retry is the prior identity,
  in a session that satisfies the invariant; and with two questions of one identifier, a
  single recorded miss gives a session of two questions.
\<close>

theorem retryIncorrectOnly_identity_and_length_counterexample:
  "session_inv review_state
   \<and> sessionId (retryIncorrectOnly sample_rng 0 ''sess_1'' review_state) = sessionId review_state
   \<and> card (set (incorrectIds duplicate_id_state)) = 1
   \<and> length (questions (retryIncorrectOnly sample_rng 0 ''sess_2'' duplicate_id_state)) = 2"
proof -
  have inv: "session_inv review_state"
    by (simp add: session_inv_def review_state_def sample_state_def pool3_def sample_question_def)
  have same: "sessionId (retryIncorrectOnly sample_rng 0 ''sess_1'' review_state) = sessionId review_state"
    by (simp add: retryIncorrectOnly_def Let_def review_state_def sample_state_def)
  have k: "card (set (incorrectIds duplicate_id_state)) = 1"
    by (simp add: duplicate_id_state_def sample_state_def)
  have "questions (retryIncorrectOnly sample_rng 0 ''sess_2'' duplicate_id_state)
      = fst (shuffle sample_rng 0 [sample_question ''e1'' easy, sample_question ''e1'' medium])"
    by (simp add: retryIncorrectOnly_def Let_def duplicate_id_state_def sample_state_def
        sample_question_def)
  then have len: "length (questions (retryIncorrectOnly sample_rng 0 ''sess_2'' duplicate_id_state)) = 2"
    by (simp add: shuffle_length)
  from inv same k len show ?thesis by simp
qed

lemma session_inv_cong:
  "mset (questions t) = mset (questions s) \<Longrightarrow> incorrectIds t = incorrectIds s \<Longrightarrow>
     session_inv s \<Longrightarrow> session_inv t"
proof -
  assume m: "mset (questions t) = mset (questions s)" and i: "incorrectIds t = incorrectIds s"
    and inv: "session_inv s"
  have "mset (questions t) \<subseteq># mset (questions s)" using m by simp
  moreover have "distinct (map qid (questions s))" using inv by (simp add: session_inv_def)
  ultimately have "distinct (map qid (questions t))" by (rule distinct_map_mset_sub)
  moreover have "set (questions t) = set (questions s)" using m by (metis set_mset_mset)
  ultimately show ?thesis using inv i by (simp add: session_inv_def)
qed

lemma session_inv_cleared:
  "mset (questions t) \<subseteq># mset (questions s) \<Longrightarrow> incorrectIds t = [] \<Longrightarrow>
     session_inv s \<Longrightarrow> session_inv t"
proof -
  assume m: "mset (questions t) \<subseteq># mset (questions s)" and i: "incorrectIds t = []"
    and inv: "session_inv s"
  have "distinct (map qid (questions s))" using inv by (simp add: session_inv_def)
  with m have "distinct (map qid (questions t))" by (rule distinct_map_mset_sub)
  with i show ?thesis by (simp add: session_inv_def)
qed

lemma current_in_questions: "current s = Some q \<Longrightarrow> q \<in> set (questions s)"
  by (auto simp: current_def total_def split: if_splits)

lemma session_inv_submit: "session_inv s \<Longrightarrow> session_inv (submit s)"
proof (cases "current s = None \<or> selectedIndex s = None \<or> submitted s")
  case True
  assume "session_inv s"
  with True show ?thesis by (simp add: submit_noop)
next
  case False
  assume inv: "session_inv s"
  from False obtain q sel where q: "current s = Some q" and sel: "selectedIndex s = Some sel"
    and ns: "\<not> submitted s" by auto
  have "qid q \<in> qid ` set (questions s)" using current_in_questions [OF q] by simp
  with inv show ?thesis
    by (simp add: submit_fires [OF q sel ns] session_inv_def)
qed

lemma session_inv_next: "session_inv s \<Longrightarrow> session_inv (next_question s)"
  by (simp add: next_question_def session_inv_def)

lemma session_inv_selectChoice: "session_inv s \<Longrightarrow> session_inv (selectChoice idx s)"
  by (simp add: selectChoice_def session_inv_def)

lemma session_inv_restart: "session_inv s \<Longrightarrow> session_inv (restartQuizKeepQuestions newSess s)"
  by (simp add: restartQuizKeepQuestions_def session_inv_def)

lemma session_inv_reshuffle: "session_inv s \<Longrightarrow> session_inv (reshuffle r p newSess s)"
  by (rule session_inv_cleared [where s = s])
    (simp_all add: reshuffle_def restartQuizKeepQuestions_def shuffle_mset)

lemma session_inv_retry: "session_inv s \<Longrightarrow> session_inv (retryIncorrectOnly r p newSess s)"
  by (rule session_inv_cleared [where s = s])
    (simp_all add: retryIncorrectOnly_def Let_def shuffle_mset)

lemma session_inv_jump: "session_inv s \<Longrightarrow> session_inv (jumpToMissed m s)"
  by (simp add: jumpToMissed_def session_inv_def)

lemma session_inv_back: "session_inv s \<Longrightarrow> session_inv (backToQuiz s)"
  by (simp add: backToQuiz_def session_inv_def)

lemma session_inv_load:
  assumes d: "distinct (map row_id rows)"
  shows "session_inv (loadQuestions r p newSess (Inr rows) selectedMode s)"
proof -
  have "map qid (map mapRow rows) = map row_id rows" by (induction rows) (simp_all add: mapRow_def)
  then have d': "distinct (map qid (map mapRow rows))" using d by (simp only:)
  have "distinct (map qid (fst (pickWeighted r p (map mapRow rows) (clampInt (quizSize s) 1 500) selectedMode)))"
    by (rule distinct_map_mset_sub [OF pickWeighted_sub d'])
  then show ?thesis by (simp add: loadQuestions_def session_inv_def Let_def)
qed

subsection \<open>Clicks and the invariant\<close>

lemma click_cases:
  "click r p newSess b s = s
   \<or> (\<exists>idx. click r p newSess b s = selectChoice idx s)
   \<or> click r p newSess b s = submit s
   \<or> click r p newSess b s = next_question s
   \<or> click r p newSess b s = reshuffle r p newSess s
   \<or> click r p newSess b s = restartQuizKeepQuestions newSess s
   \<or> click r p newSess b s = retryIncorrectOnly r p newSess s
   \<or> click r p newSess b s = backToQuiz s
   \<or> (\<exists>m. click r p newSess b s = jumpToMissed m s)"
  unfolding click_def by (cases "render s"; cases b) auto

lemma session_inv_click: "session_inv s \<Longrightarrow> session_inv (click r p newSess b s)"
  using click_cases [of r p newSess b s]
  by (auto simp: session_inv_submit session_inv_next session_inv_selectChoice
      session_inv_restart session_inv_reshuffle session_inv_retry session_inv_jump
      session_inv_back)

text \<open>
  The guard against an empty retry is the \<open>disabled\<close> attribute of the button;
  the handler itself has none (lemma \<open>retryIncorrectOnly_unguarded\<close>).
\<close>

lemma render_ReviewD: "render s = ReviewView v \<Longrightarrow> v = render_review s"
  by (auto simp: render_def render_session_def split: option.splits if_splits)

lemma retryIncorrectOnly_unguarded:
  "incorrectIds s = [] \<Longrightarrow>
     questions (retryIncorrectOnly r p newSess s) = []
     \<and> sessionId (retryIncorrectOnly r p newSess s) = newSess"
  by (simp add: retryIncorrectOnly_def shuffle_def)

text \<open>
  Claim C4. Retry-incorrect with an empty list of misses is disallowed: the click on its
  button leaves the whole state (question set, index, counts, session identity) as it
  is.
\<close>

theorem retry_disabled_when_nothing_missed:
  "incorrectIds s = [] \<Longrightarrow> click r p newSess RetryIncorrectButton s = s"
proof (cases "render s")
  case (ReviewView v)
  assume "incorrectIds s = []"
  moreover have "v = render_review s" using ReviewView by (rule render_ReviewD)
  ultimately have "rv_retry_disabled v" by (simp add: render_review_def)
  then show ?thesis by (simp add: click_def ReviewView)
qed (simp_all add: click_def)

theorem retry_disabled_when_nothing_missed_witness:
  "is_review (render perfect_state)
   \<and> click sample_rng 0 ''sess_2'' RetryIncorrectButton perfect_state = perfect_state"
proof -
  have e: "incorrectIds perfect_state = []"
    by (simp add: perfect_state_def sample_state_def)
  have "is_review (render perfect_state)"
    by (simp add: render_review_iff current_def total_def perfect_state_def sample_state_def pool3_def)
  then show ?thesis
    using retry_disabled_when_nothing_missed [OF e, of sample_rng 0 "''sess_2''"] by simp
qed

section \<open>Properties of the rendered page\<close>

lemma render_QuizD:
  "render s = QuizView v \<Longrightarrow> \<exists>q. current s = Some q \<and> v = render_quiz s q"
  by (auto simp: render_def render_session_def split: option.splits if_splits)

lemma exam_hides_choice_feedback:
  assumes "mode s = exam" "render s = QuizView v"
  shows "qv_feedback v = None
       \<and> (\<forall>c \<in> set (qv_choices v). \<not> cv_badge_correct c \<and> \<not> cv_badge_incorrect c
             \<and> Green \<notin> set (cv_classes c) \<and> Red \<notin> set (cv_classes c))"
proof -
  obtain q where v: "v = render_quiz s q" using render_QuizD [OF assms(2)] by blast
  show ?thesis
    using assms(1) by (auto simp: v render_quiz_def render_choice_def isExamLock_def Let_def)
qed

lemma balanced_reveals_after_submit:
  assumes "mode s = balanced" "submitted s" "render s = QuizView v" "current s = Some q"
  shows "qv_feedback v = Some (isCorrect s, explanation q)
       \<and> (\<forall>c \<in> set (qv_choices v). cv_badge_correct c \<longleftrightarrow> cv_index c = correctIndex q)"
proof -
  have v: "v = render_quiz s q" using render_QuizD [OF assms(3)] assms(4) by auto
  show ?thesis
    using assms(1,2) by (auto simp: v render_quiz_def render_choice_def isExamLock_def Let_def)
qed

lemma review_lists_missed:
  assumes "render s = ReviewView v"
  shows "length (rv_missed v) = length (missed s)
       \<and> (\<forall>i < length (missed s).
             mv_question (rv_missed v ! i) = question (missed s ! i)
             \<and> mv_correct_letter (rv_missed v ! i) = indexToChoice (correctIndex (missed s ! i))
             \<and> (correctIndex (missed s ! i) < length (choices (missed s ! i)) \<longrightarrow>
                  mv_correct_text (rv_missed v ! i)
                    = Some (choices (missed s ! i) ! correctIndex (missed s ! i)))
             \<and> mv_explanation (rv_missed v ! i) = explanation (missed s ! i))"
proof -
  have v: "v = render_review s" using assms by (rule render_ReviewD)
  show ?thesis by (simp add: v render_review_def render_missed_def)
qed

lemma exam_submit_view_modulo_score:
  assumes "mode s = exam" "current s = Some q" "\<not> submitted s" "index s \<noteq> total s - 1"
  shows "render_quiz (submit (s\<lparr>selectedIndex := Some a\<rparr>)) q \<lparr>qv_score_correct := 0\<rparr>
       = render_quiz (submit (s\<lparr>selectedIndex := Some b\<rparr>)) q \<lparr>qv_score_correct := 0\<rparr>
       \<and> qv_score_correct (render_quiz (submit (s\<lparr>selectedIndex := Some a\<rparr>)) q)
           = (if indexToChoice a = correctChoice q then correctCount s + 1 else correctCount s)"
proof -
  have "current (s\<lparr>selectedIndex := Some x\<rparr>) = current s" for x
    by (rule current_cong) simp_all
  then have c: "current (s\<lparr>selectedIndex := Some x\<rparr>) = Some q" for x
    using assms(2) by simp
  have f: "submit (s\<lparr>selectedIndex := Some x\<rparr>) =
     s\<lparr>selectedIndex := Some x, submitted := True, answeredCount := answeredCount s + 1,
       correctCount := (if indexToChoice x = correctChoice q then correctCount s + 1 else correctCount s),
       incorrectIds := (if indexToChoice x = correctChoice q \<or> qid q \<in> set (incorrectIds s)
                        then incorrectIds s else incorrectIds s @ [qid q]),
       saving := False\<rparr>" for x
    using assms(3,4) by (simp add: submit_fires [OF c] total_def)
  show ?thesis
    using assms(1)
    by (simp add: f render_quiz_def render_choice_def isExamLock_def Let_def total_def)
qed

lemma render_after_submit:
  assumes q: "current s = Some q" and sel: "selectedIndex s = Some sel" and ns: "\<not> submitted s"
    and "\<not> loading s" "error s = None" "\<not> showReview s" "index s \<noteq> total s - 1"
  shows "render (submit s) = QuizView (render_quiz (submit s) q)"
proof -
  have "current (submit s) = current s"
    by (rule current_cong) (simp_all add: submit_fires [OF q sel ns])
  then have c: "current (submit s) = Some q" using q by simp
  have "\<not> loading (submit s)" "error (submit s) = None" "\<not> showReview (submit s)"
    using assms(4-7) by (simp_all add: submit_fires [OF q sel ns])
  then show ?thesis by (simp add: render_def render_session_def c)
qed

text \<open>
  Claim C5. In exam mode the quiz screen after Submit is to expose no signal of whether
  the answer was correct. The choice buttons and the feedback panel expose none
  (\<open>exam_hides_choice_feedback\<close>), balanced mode reveals at once
  (\<open>balanced_reveals_after_submit\<close>) and the review screen lists every missed
  question with its correct choice and explanation (\<open>review_lists_missed\<close>).
  The score badge of the top bar, however, shows \<open>correctCount/answeredCount\<close>
  in both modes: in exam mode, on the first of three questions, the screens after
  submitting the correct choice and a wrong one differ, and differ in the score badge
  only (1/1 against 0/1).
\<close>

theorem exam_score_badge_reveals_correctness:
  "mode exam_state = exam
   \<and> map_option qv_score_correct
        (shown_quiz (render (submit (exam_state\<lparr>selectedIndex := Some 0\<rparr>)))) = Some 1
   \<and> map_option qv_score_correct
        (shown_quiz (render (submit (exam_state\<lparr>selectedIndex := Some 1\<rparr>)))) = Some 0
   \<and> map_option (\<lambda>v. v\<lparr>qv_score_correct := 0\<rparr>)
        (shown_quiz (render (submit (exam_state\<lparr>selectedIndex := Some 0\<rparr>))))
       = shown_quiz (render (submit (exam_state\<lparr>selectedIndex := Some 1\<rparr>)))
   \<and> render (submit (exam_state\<lparr>selectedIndex := Some 0\<rparr>))
       \<noteq> render (submit (exam_state\<lparr>selectedIndex := Some 1\<rparr>))"
proof -
  let ?q = "sample_question ''e1'' easy"
  let ?v0 = "render_quiz (submit (exam_state\<lparr>selectedIndex := Some 0\<rparr>)) ?q"
  let ?v1 = "render_quiz (submit (exam_state\<lparr>selectedIndex := Some 1\<rparr>)) ?q"
  have m: "mode exam_state = exam" by (simp add: exam_state_def)
  have c: "current exam_state = Some ?q"
    by (simp add: current_def total_def exam_state_def sample_state_def pool3_def)
  have ns: "\<not> submitted exam_state" by (simp add: exam_state_def sample_state_def)
  have nl: "index exam_state \<noteq> total exam_state - 1"
    by (simp add: total_def exam_state_def sample_state_def pool3_def)
  have cc: "correctCount exam_state = 0" by (simp add: exam_state_def sample_state_def)
  have k: "correctChoice ?q = A" by (simp add: sample_question_def)
  have cx: "current (exam_state\<lparr>selectedIndex := Some x\<rparr>) = Some ?q" for x
    using c current_cong [of "exam_state\<lparr>selectedIndex := Some x\<rparr>" exam_state] by simp
  have r: "render (submit (exam_state\<lparr>selectedIndex := Some x\<rparr>))
      = QuizView (render_quiz (submit (exam_state\<lparr>selectedIndex := Some x\<rparr>)) ?q)" for x
    by (rule render_after_submit [OF cx, where sel = x])
      (simp_all add: exam_state_def sample_state_def total_def pool3_def)
  have e: "?v0\<lparr>qv_score_correct := 0\<rparr> = ?v1\<lparr>qv_score_correct := 0\<rparr>"
    and s0: "qv_score_correct ?v0 = 1"
    using exam_submit_view_modulo_score [OF m c ns nl, of 0 1] by (simp_all add: cc k)
  have s1: "qv_score_correct ?v1 = 0"
    using exam_submit_view_modulo_score [OF m c ns nl, of 1 0] by (simp add: cc k)
  have "?v1\<lparr>qv_score_correct := 0\<rparr> = ?v1" using s1 by simp
  with e have e': "?v0\<lparr>qv_score_correct := 0\<rparr> = ?v1" by simp
  have ne: "?v0 \<noteq> ?v1" using s0 s1 by auto
  show ?thesis
    using m s0 s1 e' ne by (simp add: r shown_quiz_def)
qed

end
